theory Spec2Isabelle
  imports Main "HOL-Library.Sublist" "HOL-Library.Word"
begin

text \<open>
  A shallow embedding of the transaction store of the token SDK, from its Go sources:
  the audit decomposition (\<^verbatim>\<open>TransactionRecords\<close>, \<^verbatim>\<open>Movements\<close>) and the store
  \<^verbatim>\<open>DB\<close> of package ttxdb (db.go), \<^verbatim>\<open>GetTokens\<close> of the SQL token store, and the status
  cross-check of the view \<^verbatim>\<open>CheckTTXDBView\<close>. Errors are values (\<open>error + 'a\<close>, or an
  \<open>error option\<close> beside the new state); the collaborators a function only calls through
  an interface are parameters; a loop is a recursive function.
\<close>

section \<open>Basic types\<close>

text \<open>Go's \<^verbatim>\<open>[]byte\<close> and \<^verbatim>\<open>string\<close> are both byte sequences; \<^verbatim>\<open>time.Time\<close> and
  \<^verbatim>\<open>context.Context\<close> are opaque to the code modelled here.\<close>

type_synonym bytes = string
type_synonym Time = nat
type_synonym Context = nat

text \<open>\<^verbatim>\<open>driver.TxStatus\<close> and \<^verbatim>\<open>driver.ActionType\<close>, re-exported by db.go.\<close>

datatype TxStatus = Unknown | Pending | Confirmed | Deleted

datatype ActionType = Issue | Transfer | Redeem

text \<open>Go errors: \<^verbatim>\<open>errors.Errorf\<close> builds an error from a formatted message,
  \<^verbatim>\<open>errors.Wrapf\<close> and \<^verbatim>\<open>errors.WithMessagef\<close> put a message in front of a cause.
  \<open>Panic\<close> is a Go \<^verbatim>\<open>panic\<close>.\<close>

datatype error = Errorf string | Wrapf error string | Panic string

fun Cause :: "error \<Rightarrow> error" where
  "Cause (Wrapf e m) = Cause e"
| "Cause e = e"

subsection \<open>Formatting\<close>

text \<open>\<^verbatim>\<open>%d\<close> of a non-negative integer.\<close>

definition digit_char :: "nat \<Rightarrow> char" where
  "digit_char d = ''0123456789'' ! d"

function string_of_nat :: "nat \<Rightarrow> string" where
  "string_of_nat n =
     (if n < 10 then [digit_char n]
      else string_of_nat (n div 10) @ [digit_char (n mod 10)])"
  by pat_completeness auto
termination
  by (relation "measure id") auto

text \<open>\<^verbatim>\<open>%v\<close> of a \<^verbatim>\<open>[]string\<close>: the elements separated by one space, in brackets.\<close>

fun join_space :: "string list \<Rightarrow> string" where
  "join_space [] = []"
| "join_space [x] = x"
| "join_space (x # y # ys) = x @ '' '' @ join_space (y # ys)"

definition format_strings :: "string list \<Rightarrow> string" where
  "format_strings xs = ''['' @ join_space xs @ '']''"

section \<open>Audit records and token streams\<close>

text \<open>\<^verbatim>\<open>token.Input\<close> and \<^verbatim>\<open>token.Output\<close>, with the fields the audit decomposition
  reads. \<^verbatim>\<open>ActionIndex\<close> is a Go \<^verbatim>\<open>int\<close> (it is compared with the loop counter
  \<^verbatim>\<open>actionIndex := 0\<close>); the quantity is read through \<^verbatim>\<open>big.Int\<close>.\<close>

record Input =
  ActionIndex :: int
  EnrollmentID :: string
  Type :: string
  Quantity :: int

record Output =
  ActionIndex :: int
  EnrollmentID :: string
  Type :: string
  Quantity :: int

record AuditRecord =
  Anchor :: string
  Inputs :: "Input list"
  Outputs :: "Output list"

text \<open>\<^verbatim>\<open>deduplicate\<close> (db.go): keeps the first occurrence of every entry; the Go map
  \<^verbatim>\<open>support\<close> records the entries seen so far.\<close>

fun deduplicate_loop :: "string list \<Rightarrow> (string \<rightharpoonup> bool) \<Rightarrow> string list \<Rightarrow> string list" where
  "deduplicate_loop [] support res = res"
| "deduplicate_loop (item # source) support res =
     (if support item = None
      then deduplicate_loop source (support(item \<mapsto> True)) (res @ [item])
      else deduplicate_loop source support res)"

definition deduplicate :: "string list \<Rightarrow> string list" where
  "deduplicate source = deduplicate_loop source Map.empty []"

text \<open>Modelled from the spec: the methods of \<^verbatim>\<open>token.InputStream\<close> and
  \<^verbatim>\<open>token.OutputStream\<close> (package token, not among the sources). The spec reads
  \<^verbatim>\<open>Filter\<close> as "filtered by", \<^verbatim>\<open>EnrollmentIDs\<close> as the distinct enrollment ids of
  the stream, where an enrollment id is a non-empty string (an empty field carries none;
  \<^verbatim>\<open>TransactionRecords\<close> appends the empty id itself), \<^verbatim>\<open>TokenTypes\<close> as the distinct
  output types, and \<^verbatim>\<open>Sum\<close> as the sum of the amounts. The order of first occurrence is
  kept.\<close>

definition Filter :: "('a \<Rightarrow> bool) \<Rightarrow> 'a list \<Rightarrow> 'a list" where
  "Filter f s = filter f s"

definition Count :: "'a list \<Rightarrow> nat" where
  "Count s = length s"

definition Input_EnrollmentIDs :: "Input list \<Rightarrow> string list" where
  "Input_EnrollmentIDs s =
     deduplicate (filter (\<lambda>e. length e \<noteq> 0) (map Input.EnrollmentID s))"

definition Input_ByEnrollmentID :: "string \<Rightarrow> Input list \<Rightarrow> Input list" where
  "Input_ByEnrollmentID eid s = Filter (\<lambda>t. Input.EnrollmentID t = eid) s"

definition Input_ByType :: "string \<Rightarrow> Input list \<Rightarrow> Input list" where
  "Input_ByType typ s = Filter (\<lambda>t. Input.Type t = typ) s"

definition Input_Sum :: "Input list \<Rightarrow> int" where
  "Input_Sum s = sum_list (map Input.Quantity s)"

definition Output_EnrollmentIDs :: "Output list \<Rightarrow> string list" where
  "Output_EnrollmentIDs s =
     deduplicate (filter (\<lambda>e. length e \<noteq> 0) (map Output.EnrollmentID s))"

definition Output_TokenTypes :: "Output list \<Rightarrow> string list" where
  "Output_TokenTypes s = deduplicate (map Output.Type s)"

definition Output_ByEnrollmentID :: "string \<Rightarrow> Output list \<Rightarrow> Output list" where
  "Output_ByEnrollmentID eid s = Filter (\<lambda>t. Output.EnrollmentID t = eid) s"

definition Output_ByType :: "string \<Rightarrow> Output list \<Rightarrow> Output list" where
  "Output_ByType typ s = Filter (\<lambda>t. Output.Type t = typ) s"

definition Output_Sum :: "Output list \<Rightarrow> int" where
  "Output_Sum s = sum_list (map Output.Quantity s)"

section \<open>Audit decomposition: \<^verbatim>\<open>TransactionRecords\<close>\<close>

text \<open>\<^verbatim>\<open>driver.TransactionRecord\<close>; \<^verbatim>\<open>Amount\<close> is a \<^verbatim>\<open>*big.Int\<close> that is never
  written after the record is built, so it is modelled by its value.\<close>

record TransactionRecord =
  TxID :: string
  SenderEID :: string
  RecipientEID :: string
  TokenType :: string
  Amount :: int
  Status :: TxStatus
  ActionType :: ActionType
  Timestamp :: Time

text \<open>The two nested \<^verbatim>\<open>range\<close> iterations of one action: for every recipient enrollment id
  and every token type, one record unless the received sum is not positive.\<close>

definition actionRecords ::
  "string \<Rightarrow> Time \<Rightarrow> string list \<Rightarrow> Output list \<Rightarrow> TransactionRecord list" where
  "actionRecords anchor timestamp inEIDs ous =
     (let inEID = (if length inEIDs = 1 then inEIDs ! 0 else '''');
          outEIDs = Output_EnrollmentIDs ous @ [''''];
          outTT = Output_TokenTypes ous
      in concat (map (\<lambda>outEID. concat (map (\<lambda>tokenType.
           (let received = Output_Sum (Output_ByType tokenType (Output_ByEnrollmentID outEID ous))
            in if received \<le> 0 then []
               else [\<lparr>TransactionRecord.TxID = anchor,
                      SenderEID = inEID,
                      RecipientEID = outEID,
                      TokenType = tokenType,
                      Amount = received,
                      Status = Pending,
                      ActionType =
                        (if length inEIDs \<noteq> 0
                         then (if length outEID = 0 then Redeem else Transfer)
                         else Issue),
                      Timestamp = timestamp\<rparr>])) outTT)) outEIDs))"

definition action_ins :: "AuditRecord \<Rightarrow> int \<Rightarrow> Input list" where
  "action_ins record actionIndex =
     Filter (\<lambda>t. Input.ActionIndex t = actionIndex) (Inputs record)"

definition action_ous :: "AuditRecord \<Rightarrow> int \<Rightarrow> Output list" where
  "action_ous record actionIndex =
     Filter (\<lambda>t. Output.ActionIndex t = actionIndex) (Outputs record)"

definition invalid_audit :: "string list \<Rightarrow> error" where
  "invalid_audit inEIDs =
     Errorf (''expected at most 1 input enrollment id, got '' @ string_of_nat (length inEIDs)
             @ '', '' @ ''['' @ format_strings inEIDs @ '']'')"

text \<open>The measure of the \<^verbatim>\<open>for\<close> loop: the inputs and outputs whose action index is
  not below the counter. An iteration that does not stop has one at the counter.\<close>

definition remaining :: "AuditRecord \<Rightarrow> int \<Rightarrow> nat" where
  "remaining record actionIndex =
     length (filter (\<lambda>t. actionIndex \<le> Input.ActionIndex t) (Inputs record))
     + length (filter (\<lambda>t. actionIndex \<le> Output.ActionIndex t) (Outputs record))"

lemma length_filter_step:
  fixes f :: "'a \<Rightarrow> int"
  shows "length (filter (\<lambda>t. k + 1 \<le> f t) xs) + length (filter (\<lambda>t. f t = k) xs)
         = length (filter (\<lambda>t. k \<le> f t) xs)"
  by (induction xs) auto

lemma remaining_step:
  "remaining record (actionIndex + 1)
     + (Count (action_ins record actionIndex) + Count (action_ous record actionIndex))
   = remaining record actionIndex"
  using length_filter_step [of actionIndex Input.ActionIndex "Inputs record"]
        length_filter_step [of actionIndex Output.ActionIndex "Outputs record"]
  by (simp add: remaining_def action_ins_def action_ous_def Filter_def Count_def)

function TransactionRecords_loop ::
  "AuditRecord \<Rightarrow> Time \<Rightarrow> int \<Rightarrow> TransactionRecord list \<Rightarrow> error + TransactionRecord list" where
  "TransactionRecords_loop record timestamp actionIndex txs =
     (if Count (action_ins record actionIndex) = 0 \<and> Count (action_ous record actionIndex) = 0
      then Inr txs
      else if length (Input_EnrollmentIDs (action_ins record actionIndex)) > 1
      then Inl (invalid_audit (Input_EnrollmentIDs (action_ins record actionIndex)))
      else TransactionRecords_loop record timestamp (actionIndex + 1)
             (txs @ actionRecords (Anchor record) timestamp
                      (Input_EnrollmentIDs (action_ins record actionIndex))
                      (action_ous record actionIndex)))"
  by pat_completeness auto
termination
proof (relation "measure (\<lambda>(r, timestamp, actionIndex, txs). remaining r actionIndex)")
  show "wf (measure (\<lambda>(r, timestamp, actionIndex, txs). remaining r actionIndex))"
    by simp
next
  fix r :: AuditRecord and timestamp :: Time and actionIndex :: int
    and txs :: "TransactionRecord list"
  assume "\<not> (Count (action_ins r actionIndex) = 0 \<and> Count (action_ous r actionIndex) = 0)"
  then show "((r, timestamp, actionIndex + 1,
                txs @ actionRecords (Anchor r) timestamp
                        (Input_EnrollmentIDs (action_ins r actionIndex))
                        (action_ous r actionIndex)),
              (r, timestamp, actionIndex, txs))
             \<in> measure (\<lambda>(r, timestamp, actionIndex, txs). remaining r actionIndex)"
    using remaining_step [of r actionIndex] by auto
qed

definition TransactionRecords :: "AuditRecord \<Rightarrow> Time \<Rightarrow> error + TransactionRecord list" where
  "TransactionRecords record timestamp = TransactionRecords_loop record timestamp 0 []"

declare TransactionRecords_loop.simps [simp del]

text \<open>Names for the two tests of one iteration and for the records it appends.\<close>

definition action_empty :: "AuditRecord \<Rightarrow> int \<Rightarrow> bool" where
  "action_empty A k \<longleftrightarrow> Count (action_ins A k) = 0 \<and> Count (action_ous A k) = 0"

definition action_records :: "AuditRecord \<Rightarrow> Time \<Rightarrow> int \<Rightarrow> TransactionRecord list" where
  "action_records A ts k =
     actionRecords (Anchor A) ts (Input_EnrollmentIDs (action_ins A k)) (action_ous A k)"

text \<open>An action index is reached by the loop when no index from 0 up to it is empty.\<close>

definition reached :: "AuditRecord \<Rightarrow> int \<Rightarrow> bool" where
  "reached A k \<longleftrightarrow> 0 \<le> k \<and> (\<forall>j \<in> set [0..k]. \<not> action_empty A j)"

text \<open>The amount received by an enrollment id in a token type: over transaction records,
  and over outputs.\<close>

definition emitted :: "string \<Rightarrow> string \<Rightarrow> TransactionRecord list \<Rightarrow> int" where
  "emitted eid typ txs =
     sum_list (map TransactionRecord.Amount
       (filter (\<lambda>tx. RecipientEID tx = eid \<and> TransactionRecord.TokenType tx = typ) txs))"

definition tagged :: "string \<Rightarrow> string \<Rightarrow> Output list \<Rightarrow> int" where
  "tagged eid typ ous = Output_Sum (Output_ByType typ (Output_ByEnrollmentID eid ous))"

section \<open>Audit decomposition: \<^verbatim>\<open>Movements\<close>\<close>

text \<open>\<^verbatim>\<open>Movements\<close> compares two \<^verbatim>\<open>*big.Int\<close> with \<^verbatim>\<open>==\<close> after writing through one of
  them, so here the integers live in a store and a \<^verbatim>\<open>*big.Int\<close> is an address.
  \<^verbatim>\<open>NewInt\<close> allocates; \<^verbatim>\<open>z.Sub(x, y)\<close> writes \<open>x - y\<close> into \<open>z\<close> and returns \<open>z\<close>.\<close>

type_synonym addr = nat
type_synonym store = "int list"

definition NewInt :: "int \<Rightarrow> store \<Rightarrow> addr \<times> store" where
  "NewInt v st = (length st, st @ [v])"

definition Sub :: "addr \<Rightarrow> addr \<Rightarrow> addr \<Rightarrow> store \<Rightarrow> addr \<times> store" where
  "Sub z x y st = (z, st[z := st ! x - st ! y])"

text \<open>Modelled from the spec: \<^verbatim>\<open>Sum\<close> of a stream as a \<^verbatim>\<open>*big.Int\<close> (package token, not
  among the sources): the sum of the amounts, in an integer allocated by the call.\<close>

definition Input_Sum_ptr :: "Input list \<Rightarrow> store \<Rightarrow> addr \<times> store" where
  "Input_Sum_ptr s st = NewInt (Input_Sum s) st"

definition Output_Sum_ptr :: "Output list \<Rightarrow> store \<Rightarrow> addr \<times> store" where
  "Output_Sum_ptr s st = NewInt (Output_Sum s) st"

record MovementRecord =
  TxID :: string
  EnrollmentID :: string
  Amount :: addr
  TokenType :: string
  Timestamp :: Time
  Status :: TxStatus

definition joinIOEIDs :: "AuditRecord \<Rightarrow> string list" where
  "joinIOEIDs record =
     (let iEIDs = Input_EnrollmentIDs (Inputs record);
          oEIDs = Output_EnrollmentIDs (Outputs record);
          eIDs = iEIDs @ oEIDs
      in deduplicate eIDs)"

text \<open>The body of the inner loop of \<^verbatim>\<open>Movements\<close>, on the records built so far and the
  store.\<close>

definition movement_step ::
  "AuditRecord \<Rightarrow> Time \<Rightarrow> string \<Rightarrow> string \<Rightarrow> MovementRecord list \<times> store
   \<Rightarrow> MovementRecord list \<times> store" where
  "movement_step record created eID tokenType acc =
     (case acc of (mv, st) \<Rightarrow>
      (case Output_Sum_ptr (Output_ByType tokenType (Output_ByEnrollmentID eID (Outputs record))) st of
         (received, st1) \<Rightarrow>
      (case Input_Sum_ptr (Input_ByType tokenType (Input_ByEnrollmentID eID (Inputs record))) st1 of
         (sent, st2) \<Rightarrow>
      (case Sub received received sent st2 of
         (diff, st3) \<Rightarrow>
           if sent = received then (mv, st3)
           else (mv @ [\<lparr>MovementRecord.TxID = Anchor record,
                         EnrollmentID = eID,
                         Amount = diff,
                         TokenType = tokenType,
                         Timestamp = created,
                         Status = Pending\<rparr>], st3)))))"

definition Movements :: "AuditRecord \<Rightarrow> Time \<Rightarrow> store \<Rightarrow> MovementRecord list \<times> store" where
  "Movements record created st =
     (let eIDs = joinIOEIDs record;
          tokenTypes = Output_TokenTypes (Outputs record)
      in fold (\<lambda>eID. fold (movement_step record created eID) tokenTypes) eIDs ([], st))"

text \<open>The integer a movement record points to.\<close>

definition amount_of :: "store \<Rightarrow> MovementRecord \<Rightarrow> int" where
  "amount_of st m = st ! MovementRecord.Amount m"

text \<open>What every record built so far satisfies: it is pending, and its amount points to
  the difference of the sums received and sent by its enrollment id in its token type.\<close>

definition movements_ok :: "AuditRecord \<Rightarrow> MovementRecord list \<times> store \<Rightarrow> bool" where
  "movements_ok A acc \<longleftrightarrow>
     (\<forall>m \<in> set (fst acc).
        MovementRecord.Status m = Pending
        \<and> MovementRecord.Amount m < length (snd acc)
        \<and> amount_of (snd acc) m =
            Output_Sum (Output_ByType (MovementRecord.TokenType m)
              (Output_ByEnrollmentID (MovementRecord.EnrollmentID m) (Outputs A)))
            - Input_Sum (Input_ByType (MovementRecord.TokenType m)
                (Input_ByEnrollmentID (MovementRecord.EnrollmentID m) (Inputs A))))"

section \<open>Token store: \<^verbatim>\<open>GetTokens\<close>\<close>

text \<open>\<^verbatim>\<open>token.ID\<close> (the index is a \<^verbatim>\<open>uint64\<close>) and \<^verbatim>\<open>token.Token\<close> (the owner by its raw
  bytes), and the columns of the tokens table that \<^verbatim>\<open>GetTokens\<close> and
  \<^verbatim>\<open>ListAuditTokens\<close> select or test, the index as \<^verbatim>\<open>Scan\<close> reads it into a
  \<^verbatim>\<open>uint64\<close>.\<close>

record ID =
  TxId :: string
  Index :: "64 word"

record Token =
  Owner :: bytes
  Type :: string
  Quantity :: string

record TokenRow =
  tx_id :: string
  idx :: "64 word"
  owner_raw :: bytes
  token_type :: string
  quantity :: string
  is_deleted :: bool
  owner :: bool
  auditor :: bool

text \<open>The database behind \<^verbatim>\<open>db.db\<close>: the rows of the table \<^verbatim>\<open>db.table.Tokens\<close>, and what the driver
  answers beside rows. \<^verbatim>\<open>Query\<close> may return an error (a lost connection, an argument
  the driver cannot convert); \<^verbatim>\<open>rows.Next\<close> may stop after some rows with an error,
  which \<^verbatim>\<open>rows.Err\<close> then returns; \<^verbatim>\<open>rows.Scan\<close> may fail on the n-th row of the
  result set.\<close>

record TokenDB =
  Tokens :: "TokenRow list"
  Query_fails :: "error option"
  Next_fails :: "(nat \<times> error) option"
  Scan_fails :: "nat \<Rightarrow> error option"

text \<open>A database on which no call fails.\<close>

definition healthy :: "TokenRow list \<Rightarrow> TokenDB" where
  "healthy t = \<lparr>Tokens = t, Query_fails = None, Next_fails = None, Scan_fails = (\<lambda>n. None)\<rparr>"

text \<open>The schema declares \<^verbatim>\<open>PRIMARY KEY (tx_id, idx)\<close>.\<close>

definition primary_key :: "TokenRow list \<Rightarrow> bool" where
  "primary_key t \<longleftrightarrow> distinct (map (\<lambda>r. (tx_id r, idx r)) t)"

text \<open>Modelled from the spec: the condition \<^verbatim>\<open>HasTokens\<close> of the condition builder
  (not among the sources), which the spec expands to \<^verbatim>\<open>(tx,idx) IN (...)\<close>. The query of
  \<^verbatim>\<open>GetTokens\<close> conjoins it with \<^verbatim>\<open>is_deleted = false\<close> and \<^verbatim>\<open>owner = true\<close>; the rows
  come in the order of the table, which is any order.\<close>

definition HasTokens :: "ID list \<Rightarrow> TokenRow \<Rightarrow> bool" where
  "HasTokens ids r \<longleftrightarrow> (tx_id r, idx r) \<in> set (map (\<lambda>i. (TxId i, Index i)) ids)"

definition Query :: "TokenRow list \<Rightarrow> ID list \<Rightarrow> TokenRow list" where
  "Query t inputs =
     filter (\<lambda>r. HasTokens inputs r \<and> is_deleted r = False \<and> owner r = True) t"

text \<open>The rows that \<^verbatim>\<open>rows.Next\<close> delivers of a selection, and the value of \<^verbatim>\<open>rows.Err\<close>
  after them.\<close>

definition delivered :: "TokenDB \<Rightarrow> TokenRow list \<Rightarrow> TokenRow list \<times> error option" where
  "delivered d selection =
     (case Next_fails d of
        None \<Rightarrow> (selection, None)
      | Some (n, err) \<Rightarrow> (take n selection, Some err))"

definition ID_Equal :: "ID \<Rightarrow> ID \<Rightarrow> bool" where
  "ID_Equal a b \<longleftrightarrow> TxId a = TxId b \<and> Index a = Index b"

definition not_found :: "ID \<Rightarrow> error" where
  "not_found i =
     Errorf (''token not found for key ['' @ TxId i @ '':'' @ string_of_nat (unat (Index i))
             @ '']'')"

definition wrong_token :: "ID \<Rightarrow> error" where
  "wrong_token i =
     Errorf (''retrieved wrong token [{'' @ TxId i @ '' '' @ string_of_nat (unat (Index i))
             @ ''}]'')"

text \<open>"put in the right position": the first slot whose input id equals the row's id is
  written, and the search stops there.\<close>

function put_in_position ::
  "ID list \<Rightarrow> ID \<Rightarrow> Token \<Rightarrow> Token option list \<Rightarrow> nat \<Rightarrow> Token option list \<times> bool" where
  "put_in_position inputs tokID tok tokens j =
     (if j < length inputs
      then (if ID_Equal (inputs ! j) tokID then (tokens[j := Some tok], True)
            else put_in_position inputs tokID tok tokens (j + 1))
      else (tokens, False))"
  by pat_completeness auto
termination
  by (relation "measure (\<lambda>(inputs, tokID, tok, tokens, j). length inputs - j)") auto

declare put_in_position.simps [simp del]

text \<open>What a Go function of type \<^verbatim>\<open>([]*token.Token, error)\<close> returns: the slice, or
  \<^verbatim>\<open>nil\<close>, and the error, or \<^verbatim>\<open>nil\<close>. A slot of the slice is a token or \<^verbatim>\<open>nil\<close>.\<close>

type_synonym tokens_result = "Token option list option \<times> error option"

text \<open>The loop over the rows of the result set, the \<open>n\<close>-th row first: it returns from
  the function (\<open>Inl\<close>) when \<^verbatim>\<open>Scan\<close> fails, with the slice as filled so far, and when
  the row's id is not among the inputs; else it ends with the slice and the counter.\<close>

fun scan_rows ::
  "(nat \<Rightarrow> error option) \<Rightarrow> ID list \<Rightarrow> TokenRow list \<Rightarrow> nat \<Rightarrow> Token option list \<Rightarrow> nat
   \<Rightarrow> tokens_result + Token option list \<times> nat" where
  "scan_rows scan inputs [] n tokens counter = Inr (tokens, counter)"
| "scan_rows scan inputs (row # rows) n tokens counter =
     (case scan n of
        Some err \<Rightarrow> Inl (Some tokens, Some err)
      | None \<Rightarrow>
         (let tokID = \<lparr>TxId = tx_id row, Index = idx row\<rparr>;
              tok = \<lparr>Owner = owner_raw row, Type = token_type row, Quantity = quantity row\<rparr>
          in case put_in_position inputs tokID tok tokens 0 of
               (tokens', found) \<Rightarrow>
                 if \<not> found then Inl (None, Some (wrong_token tokID))
                 else scan_rows scan inputs rows (n + 1) tokens' (counter + 1)))"

text \<open>The scan for the first empty slot after the loop.\<close>

fun first_nil :: "Token option list \<Rightarrow> nat \<Rightarrow> nat option" where
  "first_nil [] j = None"
| "first_nil (t # ts) j = (if t = None then Some j else first_nil ts (j + 1))"

definition GetTokens :: "TokenDB \<Rightarrow> ID list \<Rightarrow> tokens_result" where
  "GetTokens d inputs =
     (if length inputs = 0 then (Some [], None)
      else case Query_fails d of
        Some err \<Rightarrow> (None, Some err)
      | None \<Rightarrow>
     (case delivered d (Query (Tokens d) inputs) of
        (rows, rows_Err) \<Rightarrow>
     (case scan_rows (Scan_fails d) inputs rows 0 (replicate (length inputs) None) 0 of
        Inl returned \<Rightarrow> returned
      | Inr (tokens, counter) \<Rightarrow>
     (case rows_Err of
        Some err \<Rightarrow> (Some tokens, Some err)
      | None \<Rightarrow>
          if counter = 0 then (None, Some (not_found (inputs ! 0)))
          else if counter \<noteq> length inputs
          then (case first_nil tokens 0 of
                  Some j \<Rightarrow> (None, Some (not_found (inputs ! j)))
                | None \<Rightarrow> (None, Some (Panic ''programming error: should not reach this point'')))
          else (Some tokens, None)))))"

subsection \<open>The sibling \<^verbatim>\<open>ListAuditTokens\<close>\<close>

text \<open>\<^verbatim>\<open>ListAuditTokens\<close> has the same shape, with \<^verbatim>\<open>auditor = true\<close> for the flags; its
  inner loop does not stop at the first match: every slot whose id equals the row's id
  is written, and the counter counts the slots. After an error of \<^verbatim>\<open>rows.Err\<close> it
  returns no slice. (The message of its "retrieved wrong token" error, which no row of
  the query can raise, is rendered as in \<^verbatim>\<open>GetTokens\<close>.)\<close>

definition AuditQuery :: "TokenRow list \<Rightarrow> ID list \<Rightarrow> TokenRow list" where
  "AuditQuery t ids = filter (\<lambda>r. HasTokens ids r \<and> auditor r = True) t"

function put_in_positions ::
  "ID list \<Rightarrow> ID \<Rightarrow> Token \<Rightarrow> Token option list \<Rightarrow> bool \<Rightarrow> nat \<Rightarrow> nat
   \<Rightarrow> Token option list \<times> bool \<times> nat" where
  "put_in_positions ids tokID tok tokens found counter i =
     (if i < length ids
      then (if ID_Equal (ids ! i) tokID
            then put_in_positions ids tokID tok (tokens[i := Some tok]) True (counter + 1) (i + 1)
            else put_in_positions ids tokID tok tokens found counter (i + 1))
      else (tokens, found, counter))"
  by pat_completeness auto
termination
  by (relation "measure (\<lambda>(ids, tokID, tok, tokens, found, counter, i). length ids - i)") auto

declare put_in_positions.simps [simp del]

fun scan_audit_rows ::
  "(nat \<Rightarrow> error option) \<Rightarrow> ID list \<Rightarrow> TokenRow list \<Rightarrow> nat \<Rightarrow> Token option list \<Rightarrow> nat
   \<Rightarrow> tokens_result + Token option list \<times> nat" where
  "scan_audit_rows scan ids [] n tokens counter = Inr (tokens, counter)"
| "scan_audit_rows scan ids (row # rows) n tokens counter =
     (case scan n of
        Some err \<Rightarrow> Inl (Some tokens, Some err)
      | None \<Rightarrow>
         (let tokID = \<lparr>TxId = tx_id row, Index = idx row\<rparr>;
              tok = \<lparr>Owner = owner_raw row, Type = token_type row, Quantity = quantity row\<rparr>
          in case put_in_positions ids tokID tok tokens False counter 0 of
               (tokens', found, counter') \<Rightarrow>
                 if \<not> found then Inl (None, Some (wrong_token tokID))
                 else scan_audit_rows scan ids rows (n + 1) tokens' counter'))"

definition ListAuditTokens :: "TokenDB \<Rightarrow> ID list \<Rightarrow> tokens_result" where
  "ListAuditTokens d ids =
     (if length ids = 0 then (Some [], None)
      else case Query_fails d of
        Some err \<Rightarrow> (None, Some err)
      | None \<Rightarrow>
     (case delivered d (AuditQuery (Tokens d) ids) of
        (rows, rows_Err) \<Rightarrow>
     (case scan_audit_rows (Scan_fails d) ids rows 0 (replicate (length ids) None) 0 of
        Inl returned \<Rightarrow> returned
      | Inr (tokens, counter) \<Rightarrow>
     (case rows_Err of
        Some err \<Rightarrow> (None, Some err)
      | None \<Rightarrow>
          if counter = 0 then (None, Some (not_found (ids ! 0)))
          else if counter \<noteq> length ids
          then (case first_nil tokens 0 of
                  Some j \<Rightarrow> (None, Some (not_found (ids ! j)))
                | None \<Rightarrow> (None, Some (Panic ''programming error: should not reach this point'')))
          else (Some tokens, None)))))"

text \<open>The number of slots that hold a token.\<close>

definition filled :: "Token option list \<Rightarrow> nat" where
  "filled tokens = length (filter (\<lambda>t. t \<noteq> None) tokens)"

subsection \<open>Sample tables\<close>

text \<open>Two tokens of transaction \<open>T1\<close>, owned, audited and not deleted.\<close>

definition token_A :: ID where
  "token_A = \<lparr>TxId = ''T1'', Index = 0\<rparr>"

definition token_B :: ID where
  "token_B = \<lparr>TxId = ''T1'', Index = 1\<rparr>"

definition two_tokens :: "TokenRow list" where
  "two_tokens =
     [\<lparr>tx_id = ''T1'', idx = 0, owner_raw = ''alice'', token_type = ''USD'', quantity = ''0x64'',
       is_deleted = False, owner = True, auditor = True\<rparr>,
      \<lparr>tx_id = ''T1'', idx = 1, owner_raw = ''bob'', token_type = ''EUR'', quantity = ''0x0a'',
       is_deleted = False, owner = True, auditor = True\<rparr>]"

text \<open>A token whose index has the high bit set, stored and owned, on a database whose
  driver refuses to convert such an index in the arguments of a query.\<close>

definition token_high :: ID where
  "token_high = \<lparr>TxId = ''T1'', Index = 9223372036854775808\<rparr>"

definition refusing_db :: TokenDB where
  "refusing_db =
     \<lparr>Tokens = [\<lparr>tx_id = ''T1'', idx = 9223372036854775808, owner_raw = ''alice'',
                token_type = ''USD'', quantity = ''0x64'',
                is_deleted = False, owner = True, auditor = True\<rparr>],
      Query_fails = Some (Errorf
        ''sql: converting argument $2 type: uint64 values with high bit set are not supported''),
      Next_fails = None,
      Scan_fails = (\<lambda>n. None)\<rparr>"

section \<open>Transaction store: \<^verbatim>\<open>DB\<close>\<close>

text \<open>\<^verbatim>\<open>db.StatusEvent\<close>.\<close>

record StatusEvent =
  Ctx :: Context
  TxID :: string
  ValidationCode :: TxStatus

text \<open>Modelled from the spec: \<^verbatim>\<open>db.StatusSupport\<close> (package db, not among the
  sources). \<^verbatim>\<open>Notify\<close> delivers the event to all currently registered listeners,
  synchronously; a listener is the list of events delivered to it so far.\<close>

type_synonym StatusSupport = "StatusEvent list list"

definition Notify :: "StatusEvent \<Rightarrow> StatusSupport \<Rightarrow> StatusSupport" where
  "Notify ev listeners = map (\<lambda>delivered. delivered @ [ev]) listeners"

text \<open>The calls \<^verbatim>\<open>DB\<close> makes on its collaborators, in the order it makes them.\<close>

datatype Call =
    CacheGet string
  | CacheAdd string bytes
  | BackendGetTokenRequest string
  | BackendSetStatus string TxStatus string
  | NotifyCall StatusEvent
  | BeginAtomicWrite
  | AddTokenRequest string bytes
  | AddTransaction TransactionRecord
  | AddValidationRecord string
  | Commit
  | Rollback

type_synonym metadata = "(string \<times> bytes) list"

text \<open>The interface \<^verbatim>\<open>driver.TokenTransactionDB\<close> with its atomic write handle, over a
  backend state \<open>'b\<close>: every method returns its Go result and the state it leaves. The
  write handle belongs to the backend state.\<close>

record 'b TokenTransactionDB =
  db_SetStatus :: "'b \<Rightarrow> Context \<Rightarrow> string \<Rightarrow> TxStatus \<Rightarrow> string \<Rightarrow> error option \<times> 'b"
  db_GetTokenRequest :: "'b \<Rightarrow> string \<Rightarrow> error + bytes"
  db_BeginAtomicWrite :: "'b \<Rightarrow> error option \<times> 'b"
  w_AddTokenRequest :: "'b \<Rightarrow> string \<Rightarrow> bytes \<Rightarrow> metadata \<Rightarrow> bytes \<Rightarrow> error option \<times> 'b"
  w_AddTransaction :: "'b \<Rightarrow> TransactionRecord \<Rightarrow> error option \<times> 'b"
  w_AddValidationRecord :: "'b \<Rightarrow> string \<Rightarrow> metadata \<Rightarrow> error option \<times> 'b"
  w_Commit :: "'b \<Rightarrow> error option \<times> 'b"
  w_Rollback :: "'b \<Rightarrow> 'b"

text \<open>The interface \<^verbatim>\<open>Cache\<close> of db.go, over a cache state \<open>'c\<close>.\<close>

record 'c Cache =
  cache_Get :: "'c \<Rightarrow> string \<Rightarrow> bytes option \<times> 'c"
  cache_Add :: "'c \<Rightarrow> string \<Rightarrow> bytes \<Rightarrow> 'c"
  cache_Delete :: "'c \<Rightarrow> string \<Rightarrow> 'c"

text \<open>The state behind a \<^verbatim>\<open>*DB\<close>: the backend, the cache, the listeners of the embedded
  \<^verbatim>\<open>StatusSupport\<close>, and the calls made so far.\<close>

record ('b, 'c) DB =
  db :: 'b
  cache :: 'c
  listeners :: StatusSupport
  calls :: "Call list"

text \<open>\<^verbatim>\<open>DB.SetStatus\<close>; \<open>TxStatusMessage\<close> is the table \<^verbatim>\<open>driver.TxStatusMessage\<close>.\<close>

definition SetStatus ::
  "(TxStatus \<Rightarrow> string) \<Rightarrow> 'b TokenTransactionDB \<Rightarrow> ('b, 'c) DB \<Rightarrow> Context \<Rightarrow> string
   \<Rightarrow> TxStatus \<Rightarrow> string \<Rightarrow> error option \<times> ('b, 'c) DB" where
  "SetStatus TxStatusMessage B d ctx txID status message =
     (case db_SetStatus B (db d) ctx txID status message of
        (Some err, b) \<Rightarrow>
          (Some (Wrapf err (''failed setting status ['' @ txID @ ''][''
                            @ TxStatusMessage status @ '']'')),
           d\<lparr>db := b, calls := calls d @ [BackendSetStatus txID status message]\<rparr>)
      | (None, b) \<Rightarrow>
          (let ev = \<lparr>Ctx = ctx, TxID = txID, ValidationCode = status\<rparr>
           in (None,
               d\<lparr>db := b,
                 listeners := Notify ev (listeners d),
                 calls := calls d @ [BackendSetStatus txID status message, NotifyCall ev]\<rparr>)))"

text \<open>\<^verbatim>\<open>DB.GetTokenRequest\<close>.\<close>

definition GetTokenRequest ::
  "'b TokenTransactionDB \<Rightarrow> 'c Cache \<Rightarrow> ('b, 'c) DB \<Rightarrow> string \<Rightarrow> (error + bytes) \<times> ('b, 'c) DB" where
  "GetTokenRequest B C d txID =
     (case cache_Get C (cache d) txID of
        (Some res, c) \<Rightarrow> (Inr res, d\<lparr>cache := c, calls := calls d @ [CacheGet txID]\<rparr>)
      | (None, c) \<Rightarrow>
          (db_GetTokenRequest B (db d) txID,
           d\<lparr>cache := c, calls := calls d @ [CacheGet txID, BackendGetTokenRequest txID]\<rparr>))"

text \<open>\<^verbatim>\<open>token.Request\<close>, by what \<^verbatim>\<open>AppendTransactionRecord\<close> reads of it: the anchor,
  the results of \<^verbatim>\<open>InputsAndOutputs()\<close> and \<^verbatim>\<open>Bytes()\<close>, the application metadata and
  the hash of the public parameters.\<close>

record Request =
  Anchor :: string
  InputsAndOutputs :: "error + Input list \<times> Output list"
  Bytes :: "error + bytes"
  Application :: metadata
  PublicParamsHash :: bytes

text \<open>The loop over \<^verbatim>\<open>txs\<close> in \<^verbatim>\<open>AppendTransactionRecord\<close>.\<close>

fun AddTransactions ::
  "'b TokenTransactionDB \<Rightarrow> string \<Rightarrow> ('b, 'c) DB \<Rightarrow> TransactionRecord list
   \<Rightarrow> error option \<times> ('b, 'c) DB" where
  "AddTransactions B anchor d [] = (None, d)"
| "AddTransactions B anchor d (tx # txs) =
     (case w_AddTransaction B (db d) tx of
        (Some err, b) \<Rightarrow>
          (Some (Wrapf err (''append transactions for txid ['' @ anchor @ ''] failed'')),
           d\<lparr>db := w_Rollback B b, calls := calls d @ [AddTransaction tx, Rollback]\<rparr>)
      | (None, b) \<Rightarrow>
          AddTransactions B anchor (d\<lparr>db := b, calls := calls d @ [AddTransaction tx]\<rparr>) txs)"

text \<open>\<^verbatim>\<open>DB.AppendTransactionRecord\<close>; \<open>now\<close> is \<^verbatim>\<open>time.Now().UTC()\<close>.\<close>

definition AppendTransactionRecord ::
  "'b TokenTransactionDB \<Rightarrow> 'c Cache \<Rightarrow> Time \<Rightarrow> ('b, 'c) DB \<Rightarrow> Request
   \<Rightarrow> error option \<times> ('b, 'c) DB" where
  "AppendTransactionRecord B C now d req =
     (case InputsAndOutputs req of
        Inl err \<Rightarrow>
          (Some (Wrapf err (''failed getting inputs and outputs for request [''
                            @ Request.Anchor req @ '']'')), d)
      | Inr (ins, outs) \<Rightarrow>
     (let record = \<lparr>AuditRecord.Anchor = Request.Anchor req, Inputs = ins, Outputs = outs\<rparr>
      in case Bytes req of
        Inl err \<Rightarrow>
          (Some (Wrapf err (''failed to marshal token request [''
                            @ Request.Anchor req @ '']'')), d)
      | Inr raw \<Rightarrow>
     (case TransactionRecords record now of
        Inl err \<Rightarrow> (Some (Wrapf err ''failed parsing transactions from audit record''), d)
      | Inr txs \<Rightarrow>
     (case db_BeginAtomicWrite B (db d) of
        (Some err, b) \<Rightarrow>
          (Some (Wrapf err (''begin update for txid ['' @ AuditRecord.Anchor record
                            @ ''] failed'')),
           d\<lparr>db := b, calls := calls d @ [BeginAtomicWrite]\<rparr>)
      | (None, b) \<Rightarrow>
     (let d1 = d\<lparr>db := b,
                  cache := cache_Add C (cache d) (AuditRecord.Anchor record) raw,
                  calls := calls d @ [BeginAtomicWrite,
                                      CacheAdd (AuditRecord.Anchor record) raw]\<rparr>
      in case w_AddTokenRequest B (db d1) (AuditRecord.Anchor record) raw
                (Application req) (PublicParamsHash req) of
        (Some err, b) \<Rightarrow>
          (Some (Wrapf err (''append token request for txid ['' @ AuditRecord.Anchor record
                            @ ''] failed'')),
           d1\<lparr>db := w_Rollback B b,
               calls := calls d1 @ [AddTokenRequest (AuditRecord.Anchor record) raw,
                                    Rollback]\<rparr>)
      | (None, b) \<Rightarrow>
     (case AddTransactions B (AuditRecord.Anchor record)
             (d1\<lparr>db := b,
                 calls := calls d1 @ [AddTokenRequest (AuditRecord.Anchor record) raw]\<rparr>) txs of
        (Some err, d2) \<Rightarrow> (Some err, d2)
      | (None, d2) \<Rightarrow>
     (case w_Commit B (db d2) of
        (Some err, b) \<Rightarrow>
          (Some (Wrapf err (''committing tx for txid ['' @ AuditRecord.Anchor record
                            @ ''] failed'')),
           d2\<lparr>db := b, calls := calls d2 @ [Commit]\<rparr>)
      | (None, b) \<Rightarrow> (None, d2\<lparr>db := b, calls := calls d2 @ [Commit]\<rparr>))))))))"

text \<open>\<^verbatim>\<open>DB.AppendValidationRecord\<close>; the application metadata passed on is \<^verbatim>\<open>nil\<close>.\<close>

definition AppendValidationRecord ::
  "'b TokenTransactionDB \<Rightarrow> 'c Cache \<Rightarrow> ('b, 'c) DB \<Rightarrow> string \<Rightarrow> bytes \<Rightarrow> metadata \<Rightarrow> bytes
   \<Rightarrow> error option \<times> ('b, 'c) DB" where
  "AppendValidationRecord B C d txID tokenRequest meta ppHash =
     (case db_BeginAtomicWrite B (db d) of
        (Some err, b) \<Rightarrow>
          (Some (Wrapf err (''begin update for txid ['' @ txID @ ''] failed'')),
           d\<lparr>db := b, calls := calls d @ [BeginAtomicWrite]\<rparr>)
      | (None, b) \<Rightarrow>
     (let d1 = d\<lparr>db := b,
                  cache := cache_Add C (cache d) txID tokenRequest,
                  calls := calls d @ [BeginAtomicWrite, CacheAdd txID tokenRequest]\<rparr>
      in case w_AddTokenRequest B (db d1) txID tokenRequest [] ppHash of
        (Some err, b) \<Rightarrow>
          (Some (Wrapf err (''append token request for txid ['' @ txID @ ''] failed'')),
           d1\<lparr>db := w_Rollback B b,
               calls := calls d1 @ [AddTokenRequest txID tokenRequest, Rollback]\<rparr>)
      | (None, b) \<Rightarrow>
     (case w_AddValidationRecord B b txID meta of
        (Some err, b) \<Rightarrow>
          (Some (Wrapf err (''append validation record for txid ['' @ txID @ ''] failed'')),
           d1\<lparr>db := w_Rollback B b,
               calls := calls d1 @ [AddTokenRequest txID tokenRequest,
                                    AddValidationRecord txID, Rollback]\<rparr>)
      | (None, b) \<Rightarrow>
     (case w_Commit B b of
        (Some err, b) \<Rightarrow>
          (Some (Wrapf err (''append validation record commit for txid ['' @ txID
                            @ ''] failed'')),
           d1\<lparr>db := b,
               calls := calls d1 @ [AddTokenRequest txID tokenRequest,
                                    AddValidationRecord txID, Commit]\<rparr>)
      | (None, b) \<Rightarrow>
          (None,
           d1\<lparr>db := b,
               calls := calls d1 @ [AddTokenRequest txID tokenRequest,
                                    AddValidationRecord txID, Commit]\<rparr>)))))"

subsection \<open>A backend and a cache in memory\<close>

text \<open>A small backend to run the store on: the committed token requests, the requests of
  the open write, and whether the next commit fails. A commit that fails and a rollback
  drop the open write.\<close>

record MemBackend =
  requests :: "(string \<times> bytes) list"
  pending :: "(string \<times> bytes) list"
  commit_fails :: bool

definition mem_backend :: "MemBackend TokenTransactionDB" where
  "mem_backend =
     \<lparr>db_SetStatus = (\<lambda>b ctx txID status message.
          (if map_of (requests b) txID = None
           then (Some (Errorf ''no transaction with that id''), b) else (None, b))),
      db_GetTokenRequest = (\<lambda>b txID.
          (case map_of (requests b) txID of
             None \<Rightarrow> Inl (Errorf ''no token request with that id'')
           | Some raw \<Rightarrow> Inr raw)),
      db_BeginAtomicWrite = (\<lambda>b. (None, b\<lparr>pending := []\<rparr>)),
      w_AddTokenRequest = (\<lambda>b txID raw app ppHash. (None, b\<lparr>pending := pending b @ [(txID, raw)]\<rparr>)),
      w_AddTransaction = (\<lambda>b tx. (None, b)),
      w_AddValidationRecord = (\<lambda>b txID meta. (None, b)),
      w_Commit = (\<lambda>b.
          (if commit_fails b then (Some (Errorf ''commit failed''), b\<lparr>pending := []\<rparr>)
           else (None, b\<lparr>requests := pending b @ requests b, pending := []\<rparr>))),
      w_Rollback = (\<lambda>b. b\<lparr>pending := []\<rparr>)\<rparr>"

definition mem_cache :: "(string \<times> bytes) list Cache" where
  "mem_cache =
     \<lparr>cache_Get = (\<lambda>c key. (map_of c key, c)),
      cache_Add = (\<lambda>c key v. (key, v) # c),
      cache_Delete = (\<lambda>c key. filter (\<lambda>kv. fst kv \<noteq> key) c)\<rparr>"

section \<open>Reconciliation: the status cross-check of \<^verbatim>\<open>CheckTTXDBView.Call\<close>\<close>

text \<open>The validation codes of package network.\<close>

datatype ValidationCode = Valid | Invalid | Busy | network_Unknown

text \<open>\<^verbatim>\<open>err.Error()\<close>: a wrapped error prints its message, a colon and its cause.\<close>

fun Error :: "error \<Rightarrow> string" where
  "Error (Errorf m) = m"
| "Error (Wrapf e m) = m @ '': '' @ Error e"
| "Error (Panic m) = m"

text \<open>The comparison of the vault's status with the status of one transaction record:
  the messages it appends to \<^verbatim>\<open>errorMessages\<close>, and whether the iteration goes on to the
  ledger check (it does not after a vault error). \<open>vault\<close> is \<^verbatim>\<open>v.Status\<close>.\<close>

definition vault_status_check ::
  "(TxStatus \<Rightarrow> string) \<Rightarrow> (string \<Rightarrow> error + ValidationCode) \<Rightarrow> TransactionRecord
   \<Rightarrow> string list \<Rightarrow> string list \<times> bool" where
  "vault_status_check TxStatusMessage vault transactionRecord errorMessages =
     (case vault (TransactionRecord.TxID transactionRecord) of
        Inl err \<Rightarrow>
          (errorMessages @ [''failed to get vault status transaction record [''
             @ TransactionRecord.TxID transactionRecord @ '']: ['' @ Error err @ '']''], False)
      | Inr vc \<Rightarrow>
          (if vc = network_Unknown then
             errorMessages @ [''transaction record ['' @ TransactionRecord.TxID transactionRecord
               @ ''] is unknown for vault but not for the db [''
               @ TxStatusMessage (TransactionRecord.Status transactionRecord) @ '']'']
           else if vc = Valid \<and> TransactionRecord.Status transactionRecord = Pending then
             errorMessages @ [''transaction record ['' @ TransactionRecord.TxID transactionRecord
               @ ''] is valid for vault but pending for the db'']
           else if vc = Valid \<and> TransactionRecord.Status transactionRecord = Deleted then
             errorMessages @ [''transaction record ['' @ TransactionRecord.TxID transactionRecord
               @ ''] is valid for vault but deleted for the db'']
           else if vc = Invalid \<and> TransactionRecord.Status transactionRecord = Confirmed then
             errorMessages @ [''transaction record ['' @ TransactionRecord.TxID transactionRecord
               @ ''] is invalid for vault but confirmed for the db'']
           else if vc = Invalid \<and> TransactionRecord.Status transactionRecord = Pending then
             errorMessages @ [''transaction record ['' @ TransactionRecord.TxID transactionRecord
               @ ''] is invalid for vault but pending for the db'']
           else if vc = Busy \<and> TransactionRecord.Status transactionRecord = Confirmed then
             errorMessages @ [''transaction record ['' @ TransactionRecord.TxID transactionRecord
               @ ''] is busy for vault but confirmed for the db'']
           else if vc = Busy \<and> TransactionRecord.Status transactionRecord = Deleted then
             errorMessages @ [''transaction record ['' @ TransactionRecord.TxID transactionRecord
               @ ''] is busy for vault but deleted for the db'']
           else errorMessages,
           True))"

section \<open>Sample audit records\<close>

text \<open>The transfer of the spec: alice sends 100 USD, 70 to bob and 30 back to herself.\<close>

definition transfer_example :: AuditRecord where
  "transfer_example =
     \<lparr>AuditRecord.Anchor = ''T1'',
      Inputs = [\<lparr>Input.ActionIndex = 0, Input.EnrollmentID = ''alice'', Input.Type = ''USD'',
                  Input.Quantity = 100\<rparr>],
      Outputs = [\<lparr>Output.ActionIndex = 0, Output.EnrollmentID = ''bob'', Output.Type = ''USD'',
                   Output.Quantity = 70\<rparr>,
                 \<lparr>Output.ActionIndex = 0, Output.EnrollmentID = ''alice'', Output.Type = ''USD'',
                   Output.Quantity = 30\<rparr>]\<rparr>"

definition bob_record :: TransactionRecord where
  "bob_record =
     \<lparr>TransactionRecord.TxID = ''T1'', SenderEID = ''alice'', RecipientEID = ''bob'',
      TransactionRecord.TokenType = ''USD'', TransactionRecord.Amount = 70,
      TransactionRecord.Status = Pending, ActionType = Transfer,
      TransactionRecord.Timestamp = 7\<rparr>"

definition alice_record :: TransactionRecord where
  "alice_record =
     \<lparr>TransactionRecord.TxID = ''T1'', SenderEID = ''alice'', RecipientEID = ''alice'',
      TransactionRecord.TokenType = ''USD'', TransactionRecord.Amount = 30,
      TransactionRecord.Status = Pending, ActionType = Transfer,
      TransactionRecord.Timestamp = 7\<rparr>"

text \<open>An output in action 1 of a record with nothing in action 0.\<close>

definition gap_example :: AuditRecord where
  "gap_example =
     \<lparr>AuditRecord.Anchor = ''T2'',
      Inputs = [],
      Outputs = [\<lparr>Output.ActionIndex = 1, Output.EnrollmentID = ''bob'', Output.Type = ''USD'',
                   Output.Quantity = 5\<rparr>]\<rparr>"

text \<open>Two senders in one action: in action 0, and in action 1 behind an empty action 0.\<close>

definition two_senders_example :: AuditRecord where
  "two_senders_example =
     \<lparr>AuditRecord.Anchor = ''T3'',
      Inputs = [\<lparr>Input.ActionIndex = 0, Input.EnrollmentID = ''alice'', Input.Type = ''USD'',
                  Input.Quantity = 50\<rparr>,
                \<lparr>Input.ActionIndex = 0, Input.EnrollmentID = ''bob'', Input.Type = ''USD'',
                  Input.Quantity = 50\<rparr>],
      Outputs = []\<rparr>"

definition skipped_example :: AuditRecord where
  "skipped_example =
     \<lparr>AuditRecord.Anchor = ''T4'',
      Inputs = [\<lparr>Input.ActionIndex = 1, Input.EnrollmentID = ''alice'', Input.Type = ''USD'',
                  Input.Quantity = 50\<rparr>,
                \<lparr>Input.ActionIndex = 1, Input.EnrollmentID = ''bob'', Input.Type = ''USD'',
                  Input.Quantity = 50\<rparr>],
      Outputs = []\<rparr>"

text \<open>Alice spends 100 USD and receives 100 USD in the same transaction.\<close>

definition self_transfer_example :: AuditRecord where
  "self_transfer_example =
     \<lparr>AuditRecord.Anchor = ''T5'',
      Inputs = [\<lparr>Input.ActionIndex = 0, Input.EnrollmentID = ''alice'', Input.Type = ''USD'',
                  Input.Quantity = 100\<rparr>],
      Outputs = [\<lparr>Output.ActionIndex = 0, Output.EnrollmentID = ''alice'', Output.Type = ''USD'',
                   Output.Quantity = 100\<rparr>]\<rparr>"

section \<open>Sample stores\<close>

text \<open>A table of status names to stand for \<^verbatim>\<open>driver.TxStatusMessage\<close>.\<close>

definition status_names :: "TxStatus \<Rightarrow> string" where
  "status_names s =
     (case s of Unknown \<Rightarrow> ''Unknown'' | Pending \<Rightarrow> ''Pending''
      | Confirmed \<Rightarrow> ''Confirmed'' | Deleted \<Rightarrow> ''Deleted'')"

text \<open>A store that holds the request of \<open>T1\<close>, with an empty cache and two listeners.\<close>

definition store_T1 :: "(MemBackend, (string \<times> bytes) list) DB" where
  "store_T1 =
     \<lparr>db = \<lparr>requests = [(''T1'', ''request-1'')], pending = [], commit_fails = False\<rparr>,
      cache = [],
      listeners = [[], []],
      calls = []\<rparr>"

text \<open>The same store, on a backend whose commit fails.\<close>

definition store_failing :: "(MemBackend, (string \<times> bytes) list) DB" where
  "store_failing =
     \<lparr>db = \<lparr>requests = [(''T1'', ''request-1'')], pending = [], commit_fails = True\<rparr>,
      cache = [],
      listeners = [[], []],
      calls = []\<rparr>"

text \<open>A request anchored at \<open>T7\<close> that carries the transfer of the spec.\<close>

definition request_T7 :: Request where
  "request_T7 =
     \<lparr>Request.Anchor = ''T7'',
      InputsAndOutputs = Inr (Inputs transfer_example, Outputs transfer_example),
      Bytes = Inr ''request-7'',
      Application = [],
      PublicParamsHash = ''pp''\<rparr>"

text \<open>The store of \<open>T1\<close> with the request already in the cache.\<close>

definition store_cached :: "(MemBackend, (string \<times> bytes) list) DB" where
  "store_cached = store_T1\<lparr>cache := [(''T1'', ''request-1'')]\<rparr>"

text \<open>A record of \<open>T1\<close> that the store holds as pending.\<close>

definition pending_record :: TransactionRecord where
  "pending_record =
     \<lparr>TransactionRecord.TxID = ''T1'', SenderEID = '''', RecipientEID = ''alice'',
      TransactionRecord.TokenType = ''USD'', TransactionRecord.Amount = 100,
      TransactionRecord.Status = Pending, ActionType = Issue,
      TransactionRecord.Timestamp = 7\<rparr>"

section \<open>The tokens expected of \<^verbatim>\<open>GetTokens\<close>\<close>

text \<open>The id and the token of a row, and the row that the query selects for an id.\<close>

definition row_id :: "TokenRow \<Rightarrow> ID" where
  "row_id r = \<lparr>TxId = tx_id r, Index = idx r\<rparr>"

definition row_token :: "TokenRow \<Rightarrow> Token" where
  "row_token r = \<lparr>Owner = owner_raw r, Token.Type = token_type r, Token.Quantity = quantity r\<rparr>"

definition owned_row :: "TokenRow list \<Rightarrow> ID \<Rightarrow> TokenRow option" where
  "owned_row table i =
     find (\<lambda>r. tx_id r = TxId i \<and> idx r = Index i \<and> is_deleted r = False \<and> owner r = True) table"

definition expected_tokens :: "TokenRow list \<Rightarrow> ID list \<Rightarrow> Token option list" where
  "expected_tokens table inputs = map (\<lambda>i. map_option row_token (owned_row table i)) inputs"

section \<open>Properties of the audit decomposition\<close>

subsection \<open>Deduplication\<close>

lemma deduplicate_loop_props:
  "dom support = set res \<Longrightarrow> distinct res \<Longrightarrow>
   distinct (deduplicate_loop source support res)
   \<and> set (deduplicate_loop source support res) = set res \<union> set source"
proof (induction source support res rule: deduplicate_loop.induct)
  case (1 support res)
  then show ?case by simp
next
  case (2 item source support res)
  show ?case
  proof (cases "support item = None")
    case True
    with 2 have notin: "item \<notin> set res" by (auto simp: domIff)
    have d: "dom (support(item \<mapsto> True)) = set (res @ [item])"
      using 2(3) by simp
    have "distinct (res @ [item])" using 2(4) notin by simp
    from 2(1) [OF True d this]
    have ih: "distinct (deduplicate_loop source (support(item \<mapsto> True)) (res @ [item]))"
      "set (deduplicate_loop source (support(item \<mapsto> True)) (res @ [item]))
         = set (res @ [item]) \<union> set source"
      by blast+
    have eq: "deduplicate_loop (item # source) support res
              = deduplicate_loop source (support(item \<mapsto> True)) (res @ [item])"
      using True by simp
    show ?thesis unfolding eq ih(2) using ih(1) by auto
  next
    case False
    with 2 have "item \<in> set res" by (auto simp: domIff)
    moreover have "deduplicate_loop (item # source) support res
              = deduplicate_loop source support res"
      using False by (simp del: not_None_eq)
    ultimately show ?thesis using 2(2) [OF False 2(3) 2(4)] by auto
  qed
qed

lemma distinct_deduplicate: "distinct (deduplicate xs)"
  using deduplicate_loop_props [of Map.empty "[]" xs] by (simp add: deduplicate_def)

lemma set_deduplicate: "set (deduplicate xs) = set xs"
  using deduplicate_loop_props [of Map.empty "[]" xs] by (simp add: deduplicate_def)

subsection \<open>Unfolding the loop\<close>

lemma loop_stop:
  "action_empty A k \<Longrightarrow> TransactionRecords_loop A ts k txs = Inr txs"
  by (subst TransactionRecords_loop.simps) (simp add: action_empty_def)

lemma loop_error:
  "\<not> action_empty A k \<Longrightarrow> 1 < length (Input_EnrollmentIDs (action_ins A k)) \<Longrightarrow>
   TransactionRecords_loop A ts k txs = Inl (invalid_audit (Input_EnrollmentIDs (action_ins A k)))"
  by (subst TransactionRecords_loop.simps) (auto simp: action_empty_def)

lemma loop_step:
  "\<not> action_empty A k \<Longrightarrow> \<not> 1 < length (Input_EnrollmentIDs (action_ins A k)) \<Longrightarrow>
   TransactionRecords_loop A ts k txs
     = TransactionRecords_loop A ts (k + 1) (txs @ action_records A ts k)"
  by (subst TransactionRecords_loop.simps) (auto simp: action_empty_def action_records_def)

lemma loop_cases [consumes 1, case_names stop step]:
  assumes "TransactionRecords_loop A ts k txs = Inr res"
  obtains "action_empty A k" "res = txs"
  | "\<not> action_empty A k" "\<not> 1 < length (Input_EnrollmentIDs (action_ins A k))"
    "TransactionRecords_loop A ts (k + 1) (txs @ action_records A ts k) = Inr res"
proof (cases "action_empty A k")
  case True
  with assms that(1) show ?thesis by (simp add: loop_stop)
next
  case False
  show ?thesis
  proof (cases "1 < length (Input_EnrollmentIDs (action_ins A k))")
    case True
    with False assms show ?thesis by (simp add: loop_error)
  next
    case False
    with \<open>\<not> action_empty A k\<close> assms that(2) show ?thesis by (simp add: loop_step)
  qed
qed

text \<open>A successful run stops at some index \<open>n\<close>; it has appended the records of the
  actions \<open>k, ..., n - 1\<close>, none of which is empty or has two input enrollment ids.\<close>

lemma loop_decomposition:
  "TransactionRecords_loop A ts k txs = Inr res \<Longrightarrow>
   \<exists>n\<ge>k. action_empty A n
     \<and> (\<forall>j. k \<le> j \<and> j < n \<longrightarrow>
            \<not> action_empty A j \<and> length (Input_EnrollmentIDs (action_ins A j)) \<le> 1)
     \<and> res = txs @ concat (map (action_records A ts) [k..n - 1])"
proof (induction A ts k txs rule: TransactionRecords_loop.induct)
  case (1 A ts k txs)
  from 1(2) show ?case
  proof (cases rule: loop_cases)
    case stop
    then show ?thesis by (intro exI [of _ k]) auto
  next
    case step
    from 1(1) [folded action_empty_def action_records_def, OF step(1) step(2) step(3)]
    obtain n where n: "k + 1 \<le> n" "action_empty A n"
      "\<forall>j. k + 1 \<le> j \<and> j < n \<longrightarrow>
            \<not> action_empty A j \<and> length (Input_EnrollmentIDs (action_ins A j)) \<le> 1"
      "res = (txs @ action_records A ts k) @ concat (map (action_records A ts) [k + 1..n - 1])"
      by blast
    have "[k..n - 1] = k # [k + 1..n - 1]"
      using n(1) by (simp add: upto_rec1)
    then have r: "res = txs @ concat (map (action_records A ts) [k..n - 1])"
      using n(4) by simp
    have "\<forall>j. k \<le> j \<and> j < n \<longrightarrow>
            \<not> action_empty A j \<and> length (Input_EnrollmentIDs (action_ins A j)) \<le> 1"
    proof (intro allI impI)
      fix j assume j: "k \<le> j \<and> j < n"
      show "\<not> action_empty A j \<and> length (Input_EnrollmentIDs (action_ins A j)) \<le> 1"
      proof (cases "j = k")
        case True
        with step(1,2) show ?thesis by simp
      next
        case False
        with j have "k + 1 \<le> j \<and> j < n" by simp
        with n(3) show ?thesis by blast
      qed
    qed
    with n(1,2) r show ?thesis by (intro exI [of _ n]) simp
  qed
qed

subsection \<open>The records of one action\<close>

lemma actionRecords_member:
  assumes "tx \<in> set (actionRecords anchor ts inEIDs ous)"
  shows "TransactionRecord.ActionType tx =
           (if inEIDs = [] then Issue else if RecipientEID tx = '''' then Redeem else Transfer)
         \<and> TransactionRecord.Status tx = Pending \<and> 0 < TransactionRecord.Amount tx"
  using assms by (auto simp: actionRecords_def Let_def split: if_splits)

text \<open>
  C2. Every record that \<^verbatim>\<open>TransactionRecords\<close> emits comes from one action of the
  decomposition; its action type is issue when that action has no input enrollment id,
  redeem when it has one and the recipient is empty, transfer otherwise; its status is
  pending and its amount is strictly positive.
\<close>

theorem TransactionRecords_classifies:
  assumes "TransactionRecords A ts = Inr txs" and "tx \<in> set txs"
  shows "\<exists>k. 0 \<le> k \<and> \<not> action_empty A k \<and> tx \<in> set (action_records A ts k)
           \<and> TransactionRecord.ActionType tx =
               (if Input_EnrollmentIDs (action_ins A k) = [] then Issue
                else if RecipientEID tx = '''' then Redeem else Transfer)
           \<and> TransactionRecord.Status tx = Pending
           \<and> 0 < TransactionRecord.Amount tx"
proof -
  from assms(1) obtain n where n: "0 \<le> n"
    "\<forall>j. 0 \<le> j \<and> j < n \<longrightarrow>
        \<not> action_empty A j \<and> length (Input_EnrollmentIDs (action_ins A j)) \<le> 1"
    "txs = concat (map (action_records A ts) [0..n - 1])"
    unfolding TransactionRecords_def using loop_decomposition [of A ts 0 "[]" txs] by auto
  from assms(2) n(3) obtain k where k: "0 \<le> k" "k \<le> n - 1" "tx \<in> set (action_records A ts k)"
    by auto
  from k(3) actionRecords_member [of tx "AuditRecord.Anchor A" ts "Input_EnrollmentIDs (action_ins A k)" "action_ous A k"]
  have "TransactionRecord.ActionType tx =
               (if Input_EnrollmentIDs (action_ins A k) = [] then Issue
                else if RecipientEID tx = '''' then Redeem else Transfer)
           \<and> TransactionRecord.Status tx = Pending
           \<and> 0 < TransactionRecord.Amount tx"
    by (simp add: action_records_def)
  moreover from n(2) k(1,2) have "\<not> action_empty A k" by simp
  ultimately show ?thesis using k(1,3) by blast
qed

subsection \<open>Sums of emitted amounts\<close>

lemma sum_list_indicator:
  fixes c :: int
  shows "distinct xs \<Longrightarrow> sum_list (map (\<lambda>x. if x = a then c else 0) xs) = (if a \<in> set xs then c else 0)"
  by (induction xs) auto

lemma sum_list_indicator2:
  fixes c :: int
  assumes "distinct xs" and "distinct ys"
  shows "sum_list (map (\<lambda>x. sum_list (map (\<lambda>y. if x = a \<and> y = b then c else 0) ys)) xs)
         = (if a \<in> set xs \<and> b \<in> set ys then c else 0)"
proof -
  have "\<And>x. sum_list (map (\<lambda>y. if x = a \<and> y = b then c else 0) ys)
            = (if x = a then (if b \<in> set ys then c else 0) else 0)"
    using sum_list_indicator [OF assms(2), of b c] by simp
  then show ?thesis
    using sum_list_indicator [OF assms(1), of a "if b \<in> set ys then c else 0"] by simp
qed

lemma emitted_Nil [simp]: "emitted e t [] = 0"
  by (simp add: emitted_def)

lemma emitted_append [simp]: "emitted e t (xs @ ys) = emitted e t xs + emitted e t ys"
  by (simp add: emitted_def)

lemma emitted_concat: "emitted e t (concat xss) = sum_list (map (emitted e t) xss)"
  by (induction xss) simp_all

lemma tagged_alt:
  "tagged e t ous =
     sum_list (map (\<lambda>u. if Output.EnrollmentID u = e \<and> Output.Type u = t
                         then Output.Quantity u else 0) ous)"
  by (induction ous)
     (simp_all add: tagged_def Output_Sum_def Output_ByType_def Output_ByEnrollmentID_def
        Filter_def)

lemma tagged_nonneg:
  "\<forall>u \<in> set ous. 0 \<le> Output.Quantity u \<Longrightarrow> 0 \<le> tagged e t ous"
  unfolding tagged_alt by (rule sum_list_nonneg) auto

lemma tagged_pos_member:
  assumes "tagged e t ous \<noteq> 0"
  shows "e \<in> set (Output_EnrollmentIDs ous @ ['''']) \<and> t \<in> set (Output_TokenTypes ous)"
proof -
  have "\<exists>u \<in> set ous. Output.EnrollmentID u = e \<and> Output.Type u = t"
  proof (rule ccontr)
    assume "\<not> ?thesis"
    then have "tagged e t ous = 0"
      unfolding tagged_alt by (induction ous) auto
    with assms show False by simp
  qed
  then obtain u where "u \<in> set ous" "Output.EnrollmentID u = e" "Output.Type u = t" by blast
  then show ?thesis
    by (cases "e = []") (auto simp: Output_EnrollmentIDs_def Output_TokenTypes_def set_deduplicate)
qed

lemma emitted_actionRecords_raw:
  "emitted e t (actionRecords anchor ts inEIDs ous) =
     sum_list (map (\<lambda>x. sum_list (map (\<lambda>y. if x = e \<and> y = t
          then (if tagged e t ous \<le> 0 then 0 else tagged e t ous) else 0)
        (Output_TokenTypes ous))) (Output_EnrollmentIDs ous @ ['''']))"
proof -
  have inner: "\<And>x y. emitted e t
        (let received = Output_Sum (Output_ByType y (Output_ByEnrollmentID x ous))
         in if received \<le> 0 then []
            else [\<lparr>TransactionRecord.TxID = anchor,
                   SenderEID = (if length inEIDs = 1 then inEIDs ! 0 else ''''),
                   RecipientEID = x, TransactionRecord.TokenType = y,
                   TransactionRecord.Amount = received, TransactionRecord.Status = Pending,
                   ActionType = (if length inEIDs \<noteq> 0
                                 then (if length x = 0 then Redeem else Transfer) else Issue),
                   TransactionRecord.Timestamp = ts\<rparr>])
      = (if x = e \<and> y = t then (if tagged e t ous \<le> 0 then 0 else tagged e t ous) else 0)"
    by (auto simp: emitted_def tagged_def Let_def)
  show ?thesis
    unfolding actionRecords_def Let_def emitted_concat map_map comp_def
    using inner [unfolded Let_def] by simp
qed

lemma distinct_outEIDs: "distinct (Output_EnrollmentIDs ous @ [''''])"
  by (auto simp: Output_EnrollmentIDs_def distinct_deduplicate set_deduplicate)

lemma distinct_outTT: "distinct (Output_TokenTypes ous)"
  by (simp add: Output_TokenTypes_def distinct_deduplicate)

lemma emitted_actionRecords:
  assumes "\<forall>u \<in> set ous. 0 \<le> Output.Quantity u"
  shows "emitted e t (actionRecords anchor ts inEIDs ous) = tagged e t ous"
proof (cases "tagged e t ous = 0")
  case True
  then show ?thesis
    unfolding emitted_actionRecords_raw
      sum_list_indicator2 [OF distinct_outEIDs distinct_outTT] by simp
next
  case False
  moreover from tagged_nonneg [OF assms, of e t] False have "\<not> tagged e t ous \<le> 0" by simp
  moreover note tagged_pos_member [OF False]
  ultimately show ?thesis
    unfolding emitted_actionRecords_raw
      sum_list_indicator2 [OF distinct_outEIDs distinct_outTT] by simp
qed

lemma tagged_over_actions:
  "sum_list (map (\<lambda>j. tagged e t (action_ous A j)) [k..m])
   = tagged e t (filter (\<lambda>u. k \<le> Output.ActionIndex u \<and> Output.ActionIndex u \<le> m) (Outputs A))"
proof -
  have "sum_list (map (\<lambda>j. tagged e t (filter (\<lambda>u. Output.ActionIndex u = j) ous)) [k..m])
   = tagged e t (filter (\<lambda>u. k \<le> Output.ActionIndex u \<and> Output.ActionIndex u \<le> m) ous)" for ous
  proof (induction ous)
    case Nil
    then show ?case by (simp add: tagged_alt)
  next
    case (Cons u ous)
    let ?q = "if Output.EnrollmentID u = e \<and> Output.Type u = t then Output.Quantity u else 0"
    have "sum_list (map (\<lambda>j. tagged e t (filter (\<lambda>u. Output.ActionIndex u = j) (u # ous))) [k..m])
          = sum_list (map (\<lambda>j. (if j = Output.ActionIndex u then ?q else 0)
                + tagged e t (filter (\<lambda>u. Output.ActionIndex u = j) ous)) [k..m])"
      by (intro arg_cong [where f = sum_list] map_cong) (auto simp: tagged_alt)
    also have "\<dots> = (if Output.ActionIndex u \<in> set [k..m] then ?q else 0)
                + sum_list (map (\<lambda>j. tagged e t (filter (\<lambda>u. Output.ActionIndex u = j) ous)) [k..m])"
      unfolding sum_list_addf
      using sum_list_indicator [of "[k..m]" "Output.ActionIndex u" ?q] by simp
    also have "\<dots> = tagged e t (filter (\<lambda>u. k \<le> Output.ActionIndex u \<and> Output.ActionIndex u \<le> m) (u # ous))"
      unfolding Cons.IH by (simp add: tagged_alt)
    finally show ?case .
  qed
  then show ?thesis by (simp add: action_ous_def Filter_def)
qed

lemma action_ous_subset: "set (action_ous A k) \<subseteq> set (Outputs A)"
  by (auto simp: action_ous_def Filter_def)

lemma reached_below_stop:
  assumes "reached A k" and "action_empty A n" and "0 \<le> n"
  shows "k < n"
proof (rule ccontr)
  assume "\<not> k < n"
  with assms(3) have "n \<in> set [0..k]" by simp
  with assms(1) have "\<not> action_empty A n" by (simp add: reached_def)
  with assms(2) show False by simp
qed

text \<open>The total of the amounts of the records of one action.\<close>

lemma total_tagged:
  assumes "distinct xs" and "distinct ys"
    and "\<forall>u \<in> set ous. Output.EnrollmentID u \<in> set xs \<and> Output.Type u \<in> set ys"
  shows "sum_list (map (\<lambda>x. sum_list (map (\<lambda>y. tagged x y ous) ys)) xs) = Output_Sum ous"
  using assms(3)
proof (induction ous)
  case Nil
  then show ?case by (simp add: tagged_alt Output_Sum_def)
next
  case (Cons u ous)
  have "sum_list (map (\<lambda>x. sum_list (map (\<lambda>y. tagged x y (u # ous)) ys)) xs)
        = sum_list (map (\<lambda>x. sum_list (map (\<lambda>y.
              if x = Output.EnrollmentID u \<and> y = Output.Type u then Output.Quantity u else 0) ys)
            + sum_list (map (\<lambda>y. tagged x y ous) ys)) xs)"
    unfolding sum_list_addf [symmetric]
    by (intro arg_cong [where f = sum_list] map_cong refl) (auto simp: tagged_alt)
  also have "\<dots> = Output.Quantity u + sum_list (map (\<lambda>x. sum_list (map (\<lambda>y. tagged x y ous) ys)) xs)"
    unfolding sum_list_addf sum_list_indicator2 [OF assms(1,2)] using Cons.prems by simp
  finally show ?case using Cons by (simp add: Output_Sum_def)
qed

lemma sum_list_map_concat:
  fixes f :: "'a \<Rightarrow> int"
  shows "sum_list (map f (concat xss)) = sum_list (map (\<lambda>xs. sum_list (map f xs)) xss)"
  by (induction xss) simp_all

lemma total_actionRecords:
  assumes "\<forall>u \<in> set ous. 0 \<le> Output.Quantity u"
  shows "sum_list (map TransactionRecord.Amount (actionRecords anchor ts inEIDs ous)) = Output_Sum ous"
proof -
  have inner: "\<And>x y. sum_list (map TransactionRecord.Amount
        (let received = Output_Sum (Output_ByType y (Output_ByEnrollmentID x ous))
         in if received \<le> 0 then []
            else [\<lparr>TransactionRecord.TxID = anchor,
                   SenderEID = (if length inEIDs = 1 then inEIDs ! 0 else ''''),
                   RecipientEID = x, TransactionRecord.TokenType = y,
                   TransactionRecord.Amount = received, TransactionRecord.Status = Pending,
                   ActionType = (if length inEIDs \<noteq> 0
                                 then (if length x = 0 then Redeem else Transfer) else Issue),
                   TransactionRecord.Timestamp = ts\<rparr>])) = tagged x y ous"
    using tagged_nonneg [OF assms] by (auto simp: tagged_def Let_def order.antisym)
  have "sum_list (map TransactionRecord.Amount (actionRecords anchor ts inEIDs ous))
        = sum_list (map (\<lambda>x. sum_list (map (\<lambda>y. tagged x y ous) (Output_TokenTypes ous)))
            (Output_EnrollmentIDs ous @ ['''']))"
    unfolding actionRecords_def Let_def sum_list_map_concat map_map comp_def
    using inner [unfolded Let_def] by simp
  also have "\<dots> = Output_Sum ous"
    by (rule total_tagged [OF distinct_outEIDs distinct_outTT])
       (auto simp: Output_EnrollmentIDs_def Output_TokenTypes_def set_deduplicate)
  finally show ?thesis .
qed

text \<open>
  C1, as amended. When \<^verbatim>\<open>TransactionRecords\<close> succeeds on an audit record whose output
  amounts are not negative and whose outputs all sit in actions reached by the loop, then
  for every enrollment id and token type the amounts of the emitted records with that
  recipient and type add up to the amounts of the outputs tagged with them; and the
  amounts of the records of each action add up to the total output value of the action.
\<close>

theorem TransactionRecords_conserves_outputs:
  assumes "TransactionRecords A ts = Inr txs"
    and "\<forall>u \<in> set (Outputs A). 0 \<le> Output.Quantity u \<and> reached A (Output.ActionIndex u)"
  shows "emitted e t txs = tagged e t (Outputs A)
         \<and> sum_list (map TransactionRecord.Amount (action_records A ts k))
             = Output_Sum (action_ous A k)"
proof
  from assms(1) obtain n where n: "0 \<le> n" "action_empty A n"
    "txs = concat (map (action_records A ts) [0..n - 1])"
    unfolding TransactionRecords_def using loop_decomposition [of A ts 0 "[]" txs] by auto
  have nonneg: "\<forall>u \<in> set (action_ous A j). 0 \<le> Output.Quantity u" for j
    using assms(2) action_ous_subset [of A j] by blast
  have "emitted e t txs = sum_list (map (\<lambda>j. tagged e t (action_ous A j)) [0..n - 1])"
    unfolding n(3) emitted_concat map_map comp_def action_records_def
    using emitted_actionRecords [OF nonneg] by simp
  also have "\<dots> = tagged e t
      (filter (\<lambda>u. 0 \<le> Output.ActionIndex u \<and> Output.ActionIndex u \<le> n - 1) (Outputs A))"
    by (rule tagged_over_actions)
  also have "filter (\<lambda>u. 0 \<le> Output.ActionIndex u \<and> Output.ActionIndex u \<le> n - 1) (Outputs A)
             = Outputs A"
  proof (rule filter_True, intro ballI conjI)
    fix u assume "u \<in> set (Outputs A)"
    with assms(2) have r: "reached A (Output.ActionIndex u)" by blast
    then show "0 \<le> Output.ActionIndex u" by (simp add: reached_def)
    from reached_below_stop [OF r n(2) n(1)] show "Output.ActionIndex u \<le> n - 1" by simp
  qed
  finally show "emitted e t txs = tagged e t (Outputs A)" .
  show "sum_list (map TransactionRecord.Amount (action_records A ts k)) = Output_Sum (action_ous A k)"
    unfolding action_records_def by (rule total_actionRecords [OF nonneg])
qed

subsection \<open>When the decomposition fails\<close>

lemma loop_error_reached:
  "k \<le> m \<Longrightarrow> (\<forall>j. k \<le> j \<and> j \<le> m \<longrightarrow> \<not> action_empty A j) \<Longrightarrow>
   1 < length (Input_EnrollmentIDs (action_ins A m)) \<Longrightarrow>
   \<exists>j. k \<le> j \<and> j \<le> m \<and> 1 < length (Input_EnrollmentIDs (action_ins A j))
       \<and> TransactionRecords_loop A ts k txs
           = Inl (invalid_audit (Input_EnrollmentIDs (action_ins A j)))"
proof (induction A ts k txs rule: TransactionRecords_loop.induct)
  case (1 A ts k txs)
  from 1(2,3) have ne: "\<not> action_empty A k" by simp
  show ?case
  proof (cases "1 < length (Input_EnrollmentIDs (action_ins A k))")
    case True
    with ne 1(2) show ?thesis by (intro exI [of _ k]) (simp add: loop_error)
  next
    case False
    with 1(4) have "k \<noteq> m" by auto
    with 1(2) have le: "k + 1 \<le> m" by simp
    from 1(3) have all: "\<forall>j. k + 1 \<le> j \<and> j \<le> m \<longrightarrow> \<not> action_empty A j" by simp
    from 1(1) [folded action_empty_def action_records_def, OF ne False le all 1(4)]
    obtain j where "k + 1 \<le> j" "j \<le> m" "1 < length (Input_EnrollmentIDs (action_ins A j))"
      "TransactionRecords_loop A ts (k + 1) (txs @ action_records A ts k)
         = Inl (invalid_audit (Input_EnrollmentIDs (action_ins A j)))"
      by blast
    then show ?thesis
      using loop_step [OF ne False, of ts txs] by (intro exI [of _ j]) simp
  qed
qed

lemma loop_success:
  "(\<forall>j. k \<le> j \<and> (\<forall>i. k \<le> i \<and> i \<le> j \<longrightarrow> \<not> action_empty A i)
        \<longrightarrow> length (Input_EnrollmentIDs (action_ins A j)) \<le> 1) \<Longrightarrow>
   \<exists>res. TransactionRecords_loop A ts k txs = Inr res"
proof (induction A ts k txs rule: TransactionRecords_loop.induct)
  case (1 A ts k txs)
  show ?case
  proof (cases "action_empty A k")
    case True
    then show ?thesis by (simp add: loop_stop)
  next
    case False
    with 1(2) have one: "\<not> 1 < length (Input_EnrollmentIDs (action_ins A k))"
      by (auto simp: not_less dest!: spec [of _ k])
    have "\<forall>j. k + 1 \<le> j \<and> (\<forall>i. k + 1 \<le> i \<and> i \<le> j \<longrightarrow> \<not> action_empty A i)
        \<longrightarrow> length (Input_EnrollmentIDs (action_ins A j)) \<le> 1"
    proof (intro allI impI)
      fix j assume j: "k + 1 \<le> j \<and> (\<forall>i. k + 1 \<le> i \<and> i \<le> j \<longrightarrow> \<not> action_empty A i)"
      have "\<forall>i. k \<le> i \<and> i \<le> j \<longrightarrow> \<not> action_empty A i"
      proof (intro allI impI)
        fix i assume "k \<le> i \<and> i \<le> j"
        then show "\<not> action_empty A i" using j False by (cases "i = k") auto
      qed
      with j 1(2) show "length (Input_EnrollmentIDs (action_ins A j)) \<le> 1" by simp
    qed
    from 1(1) [folded action_empty_def action_records_def, OF False one this]
    show ?thesis using loop_step [OF False one, of ts txs] by simp
  qed
qed

text \<open>
  C8, as amended. \<^verbatim>\<open>TransactionRecords\<close> returns the error "expected at most 1 input
  enrollment id" for every audit record in which some action reached by the loop has
  more than one distinct input enrollment id (the error lists the ids of such an action,
  that one or an earlier one); when every reached action has at most one, it returns
  records and no error.
\<close>

theorem TransactionRecords_invalid_audit:
  "(reached A k \<and> 1 < length (Input_EnrollmentIDs (action_ins A k)) \<longrightarrow>
      (\<exists>j. 0 \<le> j \<and> j \<le> k \<and> 1 < length (Input_EnrollmentIDs (action_ins A j))
           \<and> TransactionRecords A ts
               = Inl (invalid_audit (Input_EnrollmentIDs (action_ins A j)))))
   \<and> ((\<forall>j. reached A j \<longrightarrow> length (Input_EnrollmentIDs (action_ins A j)) \<le> 1) \<longrightarrow>
      (\<exists>txs. TransactionRecords A ts = Inr txs))"
proof (intro conjI impI)
  assume a: "reached A k \<and> 1 < length (Input_EnrollmentIDs (action_ins A k))"
  then have "0 \<le> k" "\<forall>j. 0 \<le> j \<and> j \<le> k \<longrightarrow> \<not> action_empty A j"
    by (simp_all add: reached_def)
  from loop_error_reached [OF this, of ts "[]"] a
  show "\<exists>j. 0 \<le> j \<and> j \<le> k \<and> 1 < length (Input_EnrollmentIDs (action_ins A j))
           \<and> TransactionRecords A ts
               = Inl (invalid_audit (Input_EnrollmentIDs (action_ins A j)))"
    by (simp add: TransactionRecords_def)
next
  assume "\<forall>j. reached A j \<longrightarrow> length (Input_EnrollmentIDs (action_ins A j)) \<le> 1"
  then have "\<forall>j. 0 \<le> j \<and> (\<forall>i. 0 \<le> i \<and> i \<le> j \<longrightarrow> \<not> action_empty A i)
        \<longrightarrow> length (Input_EnrollmentIDs (action_ins A j)) \<le> 1"
    by (simp add: reached_def)
  from loop_success [OF this, of ts "[]"]
  show "\<exists>txs. TransactionRecords A ts = Inr txs"
    by (simp add: TransactionRecords_def)
qed

subsection \<open>The decomposition on the samples\<close>

lemma transfer_example_records:
  "TransactionRecords transfer_example 7 = Inr [bob_record, alice_record]"
  by code_simp

theorem TransactionRecords_conserves_outputs_witness:
  "TransactionRecords transfer_example 7 = Inr [bob_record, alice_record]
   \<and> list_all (\<lambda>u. 0 \<le> Output.Quantity u \<and> reached transfer_example (Output.ActionIndex u))
        (Outputs transfer_example)
   \<and> emitted ''bob'' ''USD'' [bob_record, alice_record] = tagged ''bob'' ''USD'' (Outputs transfer_example)
   \<and> sum_list (map TransactionRecord.Amount (action_records transfer_example 7 0))
       = Output_Sum (action_ous transfer_example 0)"
proof -
  have h: "list_all (\<lambda>u. 0 \<le> Output.Quantity u \<and> reached transfer_example (Output.ActionIndex u))
        (Outputs transfer_example)"
    by code_simp
  then have "\<forall>u \<in> set (Outputs transfer_example).
      0 \<le> Output.Quantity u \<and> reached transfer_example (Output.ActionIndex u)"
    by (simp add: list_all_iff)
  from TransactionRecords_conserves_outputs [OF transfer_example_records this, of "''bob''" "''USD''" 0] h
  show ?thesis by (simp add: transfer_example_records)
qed

theorem TransactionRecords_conserves_outputs_counterexample:
  "TransactionRecords gap_example 7 = Inr []
   \<and> emitted ''bob'' ''USD'' [] = 0
   \<and> tagged ''bob'' ''USD'' (Outputs gap_example) = 5"
  by code_simp

theorem TransactionRecords_classifies_witness:
  "TransactionRecords transfer_example 7 = Inr [bob_record, alice_record]
   \<and> bob_record \<in> set [bob_record, alice_record]
   \<and> (\<exists>k. 0 \<le> k \<and> \<not> action_empty transfer_example k
           \<and> bob_record \<in> set (action_records transfer_example 7 k)
           \<and> TransactionRecord.ActionType bob_record =
               (if Input_EnrollmentIDs (action_ins transfer_example k) = [] then Issue
                else if RecipientEID bob_record = '''' then Redeem else Transfer)
           \<and> TransactionRecord.Status bob_record = Pending
           \<and> 0 < TransactionRecord.Amount bob_record)"
proof -
  have m: "bob_record \<in> set [bob_record, alice_record]" by simp
  from TransactionRecords_classifies [OF transfer_example_records m] m
  show ?thesis by (simp only: transfer_example_records simp_thms)
qed

theorem TransactionRecords_invalid_audit_witness:
  "reached two_senders_example 0
   \<and> 1 < length (Input_EnrollmentIDs (action_ins two_senders_example 0))
   \<and> (\<exists>j. 0 \<le> j \<and> j \<le> 0 \<and> 1 < length (Input_EnrollmentIDs (action_ins two_senders_example j))
          \<and> TransactionRecords two_senders_example 7
              = Inl (invalid_audit (Input_EnrollmentIDs (action_ins two_senders_example j))))
   \<and> \<not> (\<exists>j. reached transfer_example j
            \<and> \<not> length (Input_EnrollmentIDs (action_ins transfer_example j)) \<le> 1)
   \<and> (\<exists>txs. TransactionRecords transfer_example 7 = Inr txs)"
proof -
  have a: "reached two_senders_example 0
           \<and> 1 < length (Input_EnrollmentIDs (action_ins two_senders_example 0))"
    by code_simp
  have "length (Input_EnrollmentIDs (action_ins transfer_example j)) \<le> 1" for j
    by (cases "j = 0")
       (simp_all add: transfer_example_def action_ins_def Filter_def Input_EnrollmentIDs_def
          deduplicate_def)
  then have b: "\<forall>j. reached transfer_example j
      \<longrightarrow> length (Input_EnrollmentIDs (action_ins transfer_example j)) \<le> 1"
    by simp
  from a b TransactionRecords_invalid_audit [of two_senders_example 0 7]
    TransactionRecords_invalid_audit [of transfer_example 0 7]
  show ?thesis by blast
qed

theorem TransactionRecords_invalid_audit_counterexample:
  "length (Input_EnrollmentIDs (action_ins skipped_example 1)) = 2
   \<and> TransactionRecords skipped_example 7 = Inr []"
  by code_simp

lemma two_senders_example_error:
  "TransactionRecords two_senders_example 7 =
     Inl (Errorf ''expected at most 1 input enrollment id, got 2, [[alice bob]]'')"
  by code_simp

text \<open>A redeem: with no output at all the action yields no record, since the token types
  are those of the outputs; with the burnt output, which has no recipient, it yields the
  redeem record.\<close>

lemma redeem_without_outputs:
  "TransactionRecords
     \<lparr>AuditRecord.Anchor = ''T6'',
      Inputs = [\<lparr>Input.ActionIndex = 0, Input.EnrollmentID = ''alice'', Input.Type = ''USD'',
                  Input.Quantity = 50\<rparr>],
      Outputs = []\<rparr> 7 = Inr []"
  by code_simp

lemma redeem_with_burnt_output:
  "TransactionRecords
     \<lparr>AuditRecord.Anchor = ''T6'',
      Inputs = [\<lparr>Input.ActionIndex = 0, Input.EnrollmentID = ''alice'', Input.Type = ''USD'',
                  Input.Quantity = 50\<rparr>],
      Outputs = [\<lparr>Output.ActionIndex = 0, Output.EnrollmentID = '''', Output.Type = ''USD'',
                   Output.Quantity = 50\<rparr>]\<rparr> 7
   = Inr [\<lparr>TransactionRecord.TxID = ''T6'', SenderEID = ''alice'', RecipientEID = '''',
            TransactionRecord.TokenType = ''USD'', TransactionRecord.Amount = 50,
            TransactionRecord.Status = Pending, ActionType = Redeem,
            TransactionRecord.Timestamp = 7\<rparr>]"
  by code_simp

section \<open>Properties of \<^verbatim>\<open>Movements\<close>\<close>

text \<open>One pass of the inner loop: the two sums are allocated one after the other, the
  difference overwrites the first, and a record is appended in every case, since the
  two addresses differ.\<close>

lemma movement_step_eq:
  "movement_step A created eID tokenType (mv, st) =
     (mv @ [\<lparr>MovementRecord.TxID = AuditRecord.Anchor A,
              MovementRecord.EnrollmentID = eID,
              MovementRecord.Amount = length st,
              MovementRecord.TokenType = tokenType,
              MovementRecord.Timestamp = created,
              MovementRecord.Status = Pending\<rparr>],
      st @ [Output_Sum (Output_ByType tokenType (Output_ByEnrollmentID eID (Outputs A)))
              - Input_Sum (Input_ByType tokenType (Input_ByEnrollmentID eID (Inputs A))),
            Input_Sum (Input_ByType tokenType (Input_ByEnrollmentID eID (Inputs A)))])"
  by (simp add: movement_step_def Output_Sum_ptr_def Input_Sum_ptr_def NewInt_def Sub_def
      nth_append)

lemma movement_step_length:
  "length (fst (movement_step A created eID tokenType acc)) = Suc (length (fst acc))"
  by (cases acc) (simp add: movement_step_eq)

lemma fold_movement_step_length:
  "length (fst (fold (movement_step A created eID) tokenTypes acc))
   = length (fst acc) + length tokenTypes"
  by (induction tokenTypes arbitrary: acc) (simp_all add: movement_step_length)

lemma Movements_never_skips:
  "length (fst (Movements A created st))
   = length (joinIOEIDs A) * length (Output_TokenTypes (Outputs A))"
proof -
  have "length (fst (fold (\<lambda>eID. fold (movement_step A created eID) tokenTypes) eIDs acc))
        = length (fst acc) + length eIDs * length tokenTypes" for eIDs tokenTypes acc
    by (induction eIDs arbitrary: acc) (simp_all add: fold_movement_step_length)
  from this [of "Output_TokenTypes (Outputs A)" "joinIOEIDs A" "([], st)"]
  show ?thesis by (simp add: Movements_def Let_def)
qed

lemma movement_step_ok:
  "movements_ok A acc \<Longrightarrow> movements_ok A (movement_step A created eID tokenType acc)"
  by (cases acc) (auto simp: movements_ok_def movement_step_eq amount_of_def nth_append)

lemma fold_movement_step_ok:
  "movements_ok A acc \<Longrightarrow> movements_ok A (fold (movement_step A created eID) tokenTypes acc)"
  by (induction tokenTypes arbitrary: acc) (simp_all add: movement_step_ok)

lemma Movements_amounts:
  "movements_ok A (Movements A created st)"
proof -
  have "movements_ok A acc \<Longrightarrow>
        movements_ok A (fold (\<lambda>eID. fold (movement_step A created eID) tokenTypes) eIDs acc)"
    for eIDs tokenTypes acc
    by (induction eIDs arbitrary: acc) (simp_all add: fold_movement_step_ok)
  moreover have "movements_ok A ([], st)" by (simp add: movements_ok_def)
  ultimately show ?thesis by (simp add: Movements_def Let_def)
qed

text \<open>
  C3. For alice and USD the received and the sent sums are both 100, so the difference
  is 0 and the claim has the pair skipped; \<^verbatim>\<open>Movements\<close> emits a record for it, pending
  and with amount 0: the test \<^verbatim>\<open>sent == received\<close> compares the two addresses, which
  differ.
\<close>

theorem Movements_emits_zero_difference:
  "Output_Sum (Output_ByType ''USD'' (Output_ByEnrollmentID ''alice'' (Outputs self_transfer_example)))
     = Input_Sum (Input_ByType ''USD'' (Input_ByEnrollmentID ''alice'' (Inputs self_transfer_example)))
   \<and> Movements self_transfer_example 7 [] =
       ([\<lparr>MovementRecord.TxID = ''T5'', MovementRecord.EnrollmentID = ''alice'',
          MovementRecord.Amount = 0, MovementRecord.TokenType = ''USD'',
          MovementRecord.Timestamp = 7, MovementRecord.Status = Pending\<rparr>],
        [0, 100])
   \<and> amount_of [0, 100]
        \<lparr>MovementRecord.TxID = ''T5'', MovementRecord.EnrollmentID = ''alice'',
          MovementRecord.Amount = 0, MovementRecord.TokenType = ''USD'',
          MovementRecord.Timestamp = 7, MovementRecord.Status = Pending\<rparr> = 0"
  by code_simp

section \<open>Properties of \<^verbatim>\<open>GetTokens\<close>\<close>

lemma filled_update: "filled (tokens[j := Some tok]) \<le> Suc (filled tokens)"
  unfolding filled_def
proof (induction tokens arbitrary: j)
  case Nil
  then show ?case by simp
next
  case (Cons t tokens)
  then show ?case by (cases j) (auto simp: le_SucI)
qed

lemma put_in_position_props:
  "length (fst (put_in_position inputs tokID tok tokens j)) = length tokens
   \<and> filled (fst (put_in_position inputs tokID tok tokens j)) \<le> Suc (filled tokens)"
proof (induction inputs tokID tok tokens j rule: put_in_position.induct)
  case (1 inputs tokID tok tokens j)
  show ?case
  proof (cases "j < length inputs")
    case True
    show ?thesis
    proof (cases "ID_Equal (inputs ! j) tokID")
      case True
      with \<open>j < length inputs\<close> show ?thesis
        by (subst (1 2) put_in_position.simps) (simp add: filled_update)
    next
      case False
      with \<open>j < length inputs\<close> 1 show ?thesis
        by (subst (1 2) put_in_position.simps) simp
    qed
  next
    case False
    then show ?thesis by (subst (1 2) put_in_position.simps) simp
  qed
qed

lemma put_in_position_found:
  "j \<le> i \<Longrightarrow> i < length inputs \<Longrightarrow> ID_Equal (inputs ! i) tokID \<Longrightarrow>
   snd (put_in_position inputs tokID tok tokens j)"
proof (induction inputs tokID tok tokens j rule: put_in_position.induct)
  case (1 inputs tokID tok tokens j)
  from 1(2,3) have lt: "j < length inputs" by simp
  show ?case
  proof (cases "ID_Equal (inputs ! j) tokID")
    case True
    with lt show ?thesis by (subst put_in_position.simps) simp
  next
    case False
    with 1(4) have "i \<noteq> j" by auto
    with 1(2) have "j + 1 \<le> i" by simp
    from 1(1) [OF lt False this 1(3) 1(4)] lt False
    show ?thesis by (subst put_in_position.simps) simp
  qed
qed

lemma scan_rows_props:
  assumes "\<forall>r \<in> set rows. \<exists>i < length inputs. ID_Equal (inputs ! i) \<lparr>TxId = tx_id r, Index = idx r\<rparr>"
    and "\<forall>m. n \<le> m \<and> m < n + length rows \<longrightarrow> scan m = None"
  shows "\<exists>tokens'. scan_rows scan inputs rows n tokens counter = Inr (tokens', counter + length rows)
           \<and> length tokens' = length tokens
           \<and> filled tokens' \<le> filled tokens + length rows"
  using assms
proof (induction rows arbitrary: n tokens counter)
  case Nil
  then show ?case by simp
next
  case (Cons row rows)
  let ?tokID = "\<lparr>TxId = tx_id row, Index = idx row\<rparr>"
  let ?tok = "\<lparr>Owner = owner_raw row, Token.Type = token_type row, Token.Quantity = quantity row\<rparr>"
  obtain tokens1 found where p: "put_in_position inputs ?tokID ?tok tokens 0 = (tokens1, found)"
    by (cases "put_in_position inputs ?tokID ?tok tokens 0")
  from Cons.prems(1) obtain i where "i < length inputs" "ID_Equal (inputs ! i) ?tokID" by auto
  from put_in_position_found [OF _ this, of 0 ?tok tokens] p have found by simp
  from put_in_position_props [of inputs ?tokID ?tok tokens 0] p
  have l: "length tokens1 = length tokens" "filled tokens1 \<le> Suc (filled tokens)" by simp_all
  from Cons.prems(2) have here: "scan n = None" by simp
  from Cons.prems(2) have later: "\<forall>m. n + 1 \<le> m \<and> m < n + 1 + length rows \<longrightarrow> scan m = None"
    by simp
  from Cons.IH [of "n + 1" tokens1 "counter + 1", OF _ later] Cons.prems(1)
  obtain tokens' where
    "scan_rows scan inputs rows (n + 1) tokens1 (counter + 1) = Inr (tokens', counter + 1 + length rows)"
    "length tokens' = length tokens1" "filled tokens' \<le> filled tokens1 + length rows"
    by auto
  with p \<open>found\<close> l here show ?case by (intro exI [of _ tokens']) simp
qed

lemma first_nil_exists:
  "filled tokens < length tokens \<Longrightarrow> \<exists>j < length tokens. first_nil tokens k = Some (k + j)"
proof (induction tokens arbitrary: k)
  case Nil
  then show ?case by simp
next
  case (Cons t tokens)
  show ?case
  proof (cases "t = None")
    case True
    then show ?thesis by (intro exI [of _ 0]) simp
  next
    case False
    with Cons.prems have "filled tokens < length tokens" by (simp add: filled_def)
    from Cons.IH [OF this, of "k + 1"] obtain j where "j < length tokens"
      "first_nil tokens (k + 1) = Some (k + 1 + j)" by blast
    with False show ?thesis by (intro exI [of _ "Suc j"]) simp
  qed
qed

lemma Query_ids:
  "\<forall>r \<in> set (Query table inputs).
     \<exists>i < length inputs. ID_Equal (inputs ! i) \<lparr>TxId = tx_id r, Index = idx r\<rparr>"
  by (auto simp: Query_def HasTokens_def ID_Equal_def in_set_conv_nth)

lemma Query_short:
  assumes "primary_key table" and "\<not> distinct inputs"
  shows "length (Query table inputs) < length inputs"
proof -
  let ?key = "\<lambda>r. (tx_id r, idx r)" and ?ikey = "\<lambda>i. (TxId i, Index i)"
  have d: "distinct (map ?key (Query table inputs))"
    using assms(1) unfolding primary_key_def Query_def by (rule distinct_map_filter)
  have "set (map ?key (Query table inputs)) \<subseteq> set (map ?ikey inputs)"
    by (auto simp: Query_def HasTokens_def)
  then have "card (set (map ?key (Query table inputs))) \<le> card (set (map ?ikey inputs))"
    by (intro card_mono) simp_all
  moreover have "card (set (map ?key (Query table inputs))) = length (Query table inputs)"
    using distinct_card [OF d] by simp
  moreover have "\<not> distinct (map ?ikey inputs)"
    using assms(2) by (simp add: distinct_map)
  then have "card (set (map ?ikey inputs)) < length inputs"
    using card_length [of "map ?ikey inputs"] card_distinct [of "map ?ikey inputs"]
    by (cases "card (set (map ?ikey inputs)) = length (map ?ikey inputs)") auto
  ultimately show ?thesis by simp
qed

lemma delivered_all: "Next_fails d = None \<Longrightarrow> delivered d selection = (selection, None)"
  by (simp add: delivered_def)

text \<open>
  C10, as amended. When the input list of \<^verbatim>\<open>GetTokens\<close> holds a token id more than once
  and the driver reports no error (not from the query, not from the iteration over the
  rows, not from a scan of a row), the call returns no slice and the error "token not
  found for key [tx:idx]" for one of the input ids, whatever the table holds under its
  primary key, also when every id names an owned token that is not deleted: a row fills
  the first matching slot only, so fewer slots are filled than there are inputs.
\<close>

theorem GetTokens_duplicate_ids:
  assumes "primary_key (Tokens d)" and "\<not> distinct inputs"
    and "Query_fails d = None" and "Next_fails d = None"
    and "\<forall>n. n < length (Query (Tokens d) inputs) \<longrightarrow> Scan_fails d n = None"
  shows "\<exists>j. j < length inputs \<and> GetTokens d inputs = (None, Some (not_found (inputs ! j)))"
proof -
  from assms(2) have ne: "length inputs \<noteq> 0" by auto
  from assms(5) have scans:
    "\<forall>m. 0 \<le> m \<and> m < 0 + length (Query (Tokens d) inputs) \<longrightarrow> Scan_fails d m = None"
    by simp
  from scan_rows_props [OF Query_ids [of "Tokens d" inputs] scans,
      where tokens = "replicate (length inputs) None" and counter = 0]
  obtain tokens where t:
    "scan_rows (Scan_fails d) inputs (Query (Tokens d) inputs) 0 (replicate (length inputs) None) 0
       = Inr (tokens, length (Query (Tokens d) inputs))"
    "length tokens = length inputs"
    "filled tokens \<le> filled (replicate (length inputs) None) + length (Query (Tokens d) inputs)"
    by auto
  have "filled (replicate (length inputs) None) = 0" by (simp add: filled_def)
  with t(3) Query_short [OF assms(1,2)] t(2) have short: "filled tokens < length tokens" by simp
  from Query_short [OF assms(1,2)]
  have neq: "length (Query (Tokens d) inputs) \<noteq> length inputs" by simp
  show ?thesis
  proof (cases "length (Query (Tokens d) inputs) = 0")
    case True
    with ne t(1) assms(3) delivered_all [OF assms(4)] show ?thesis
      by (intro exI [of _ 0]) (simp add: GetTokens_def)
  next
    case False
    from first_nil_exists [OF short, of 0] obtain j where
      "j < length tokens" "first_nil tokens 0 = Some j" by auto
    with ne t(1,2) False neq assms(3) delivered_all [OF assms(4)] show ?thesis
      by (intro exI [of _ j]) (simp add: GetTokens_def)
  qed
qed

theorem GetTokens_duplicate_ids_witness:
  "primary_key (Tokens (healthy two_tokens)) \<and> \<not> distinct [token_A, token_A]
   \<and> Query_fails (healthy two_tokens) = None \<and> Next_fails (healthy two_tokens) = None
   \<and> \<not> (\<exists>n. Scan_fails (healthy two_tokens) n \<noteq> None)
   \<and> (\<exists>j. j < length [token_A, token_A]
          \<and> GetTokens (healthy two_tokens) [token_A, token_A]
              = (None, Some (not_found ([token_A, token_A] ! j))))"
proof -
  have "primary_key (Tokens (healthy two_tokens)) \<and> \<not> distinct [token_A, token_A]
    \<and> Query_fails (healthy two_tokens) = None \<and> Next_fails (healthy two_tokens) = None
    \<and> (\<forall>n. Scan_fails (healthy two_tokens) n = None)"
    by (simp add: primary_key_def two_tokens_def healthy_def)
  with GetTokens_duplicate_ids [of "healthy two_tokens" "[token_A, token_A]"] show ?thesis
    by simp
qed

text \<open>The driver refuses the query for a repeated id that is stored and owned:
  \<^verbatim>\<open>GetTokens\<close> returns the driver's error, not "token not found".\<close>

theorem GetTokens_duplicate_ids_counterexample:
  "\<not> distinct [token_high, token_high]
   \<and> list_ex (\<lambda>r. tx_id r = TxId token_high \<and> idx r = Index token_high \<and> owner r
                  \<and> \<not> is_deleted r) (Tokens refusing_db)
   \<and> GetTokens refusing_db [token_high, token_high] =
        (None, Some (Errorf
           ''sql: converting argument $2 type: uint64 values with high bit set are not supported''))
   \<and> GetTokens refusing_db [token_high, token_high] \<noteq> (None, Some (not_found token_high))"
  by (simp add: GetTokens_def refusing_db_def token_high_def not_found_def)

lemma GetTokens_twice_A:
  "GetTokens (healthy two_tokens) [token_A, token_A]
     = (None, Some (Errorf ''token not found for key [T1:0]''))"
  by code_simp

text \<open>
  C4. A non-empty list of ids that all name owned, not deleted tokens of the table, with
  one id twice, on a database on which no call fails: \<^verbatim>\<open>GetTokens\<close> returns "token not
  found" for a token that is there, and no token list, where the claim promises one token
  per id in the order of the ids. The sibling \<^verbatim>\<open>ListAuditTokens\<close> returns the three
  tokens in that order.
\<close>

theorem GetTokens_repeated_id_not_found:
  "list_all (\<lambda>i. list_ex (\<lambda>r. tx_id r = TxId i \<and> idx r = Index i \<and> owner r \<and> \<not> is_deleted r)
                two_tokens) [token_B, token_A, token_B]
   \<and> GetTokens (healthy two_tokens) [token_B, token_A, token_B]
       = (None, Some (Errorf ''token not found for key [T1:1]''))
   \<and> ListAuditTokens (healthy two_tokens) [token_B, token_A, token_B]
       = (Some [Some \<lparr>Owner = ''bob'', Token.Type = ''EUR'', Token.Quantity = ''0x0a''\<rparr>,
                Some \<lparr>Owner = ''alice'', Token.Type = ''USD'', Token.Quantity = ''0x64''\<rparr>,
                Some \<lparr>Owner = ''bob'', Token.Type = ''EUR'', Token.Quantity = ''0x0a''\<rparr>],
          None)"
  by code_simp

lemma GetTokens_ordered:
  "GetTokens (healthy two_tokens) [token_B, token_A]
       = (Some [Some \<lparr>Owner = ''bob'', Token.Type = ''EUR'', Token.Quantity = ''0x0a''\<rparr>,
                Some \<lparr>Owner = ''alice'', Token.Type = ''USD'', Token.Quantity = ''0x64''\<rparr>],
          None)"
  by code_simp

subsection \<open>\<^verbatim>\<open>GetTokens\<close> on a list of distinct ids\<close>

lemma ID_Equal_iff: "ID_Equal (a :: ID) b \<longleftrightarrow> a = b"
  by (cases a, cases b) (simp add: ID_Equal_def)

lemma put_in_position_distinct:
  "distinct inputs \<Longrightarrow> j \<le> i \<Longrightarrow> i < length inputs \<Longrightarrow>
   put_in_position inputs (inputs ! i) tok tokens j = (tokens[i := Some tok], True)"
proof (induction inputs "inputs ! i" tok tokens j rule: put_in_position.induct)
  case (1 inputs tok tokens j)
  from 1(3,4) have lt: "j < length inputs" by simp
  show ?case
  proof (cases "j = i")
    case True
    with lt show ?thesis by (subst put_in_position.simps) (simp add: ID_Equal_iff)
  next
    case False
    with 1(2,4) lt have ne: "\<not> ID_Equal (inputs ! j) (inputs ! i)"
      by (simp add: ID_Equal_iff nth_eq_iff_index_eq)
    from False 1(3) have "j + 1 \<le> i" by simp
    from 1(1) [OF lt ne 1(2) this 1(4)] lt ne
    show ?thesis by (subst put_in_position.simps) simp
  qed
qed

text \<open>After the scan every slot holds the token of the row with the slot's id, if there
  is one, and is untouched otherwise.\<close>

lemma scan_rows_distinct:
  assumes "distinct inputs"
  shows "distinct (map row_id rows) \<Longrightarrow> set (map row_id rows) \<subseteq> set inputs \<Longrightarrow>
         length tokens = length inputs \<Longrightarrow>
         (\<forall>m. n \<le> m \<and> m < n + length rows \<longrightarrow> scan m = None) \<Longrightarrow>
         scan_rows scan inputs rows n tokens counter =
           Inr (map (\<lambda>(i, t). case find (\<lambda>r. row_id r = i) rows of
                                 Some r \<Rightarrow> Some (row_token r) | None \<Rightarrow> t) (zip inputs tokens),
                counter + length rows)"
proof (induction rows arbitrary: n tokens counter)
  case Nil
  then show ?case by (simp add: map_snd_zip [unfolded snd_def] case_prod_unfold)
next
  case (Cons row rows)
  from Cons.prems(2) obtain k where k: "k < length inputs" "inputs ! k = row_id row"
    by (auto simp: in_set_conv_nth)
  have p: "put_in_position inputs \<lparr>TxId = tx_id row, Index = idx row\<rparr>
             \<lparr>Owner = owner_raw row, Token.Type = token_type row, Token.Quantity = quantity row\<rparr>
             tokens 0 = (tokens[k := Some (row_token row)], True)"
    using put_in_position_distinct [OF assms, of 0 k "row_token row" tokens] k
    by (simp add: row_id_def row_token_def)
  have notin: "find (\<lambda>r. row_id r = row_id row) rows = None"
    using Cons.prems(1) by (auto simp: find_None_iff image_iff)
  from Cons.prems(4) have here: "scan n = None" by simp
  from Cons.prems(4) have later: "\<forall>m. n + 1 \<le> m \<and> m < n + 1 + length rows \<longrightarrow> scan m = None"
    by simp
  have ih: "scan_rows scan inputs rows (n + 1) (tokens[k := Some (row_token row)]) (counter + 1) =
           Inr (map (\<lambda>(i, t). case find (\<lambda>r. row_id r = i) rows of
                                 Some r \<Rightarrow> Some (row_token r) | None \<Rightarrow> t)
                  (zip inputs (tokens[k := Some (row_token row)])),
                counter + 1 + length rows)"
    using Cons.prems(1-3) later by (intro Cons.IH) simp_all
  have "map (\<lambda>(i, t). case find (\<lambda>r. row_id r = i) rows of
                                 Some r \<Rightarrow> Some (row_token r) | None \<Rightarrow> t)
                  (zip inputs (tokens[k := Some (row_token row)]))
        = map (\<lambda>(i, t). case find (\<lambda>r. row_id r = i) (row # rows) of
                                 Some r \<Rightarrow> Some (row_token r) | None \<Rightarrow> t) (zip inputs tokens)"
  proof (rule nth_equalityI)
    show "length (map (\<lambda>(i, t). case find (\<lambda>r. row_id r = i) rows of
                                 Some r \<Rightarrow> Some (row_token r) | None \<Rightarrow> t)
                  (zip inputs (tokens[k := Some (row_token row)])))
        = length (map (\<lambda>(i, t). case find (\<lambda>r. row_id r = i) (row # rows) of
                                 Some r \<Rightarrow> Some (row_token r) | None \<Rightarrow> t) (zip inputs tokens))"
      by simp
  next
    fix q assume "q < length (map (\<lambda>(i, t). case find (\<lambda>r. row_id r = i) rows of
                                 Some r \<Rightarrow> Some (row_token r) | None \<Rightarrow> t)
                  (zip inputs (tokens[k := Some (row_token row)])))"
    then have q: "q < length inputs" "q < length tokens" using Cons.prems(3) by simp_all
    show "map (\<lambda>(i, t). case find (\<lambda>r. row_id r = i) rows of
                                 Some r \<Rightarrow> Some (row_token r) | None \<Rightarrow> t)
                  (zip inputs (tokens[k := Some (row_token row)])) ! q
        = map (\<lambda>(i, t). case find (\<lambda>r. row_id r = i) (row # rows) of
                                 Some r \<Rightarrow> Some (row_token r) | None \<Rightarrow> t) (zip inputs tokens) ! q"
    proof (cases "q = k")
      case True
      with q k notin show ?thesis by simp
    next
      case False
      with q k assms have "row_id row \<noteq> inputs ! q" by (auto simp: nth_eq_iff_index_eq)
      with q False show ?thesis by simp
    qed
  qed
  with ih p here show ?case by (simp add: row_id_def row_token_def)
qed

lemma find_filter:
  "find Q (filter P xs) = find (\<lambda>x. P x \<and> Q x) xs"
  by (induction xs) auto

lemma find_Query:
  "i \<in> set inputs \<Longrightarrow> find (\<lambda>r. row_id r = i) (Query table inputs) = owned_row table i"
proof -
  assume i: "i \<in> set inputs"
  have "(HasTokens inputs r \<and> is_deleted r = False \<and> owner r = True) \<and> row_id r = i
        \<longleftrightarrow> tx_id r = TxId i \<and> idx r = Index i \<and> is_deleted r = False \<and> owner r = True" for r
  proof (cases "row_id r = i")
    case True
    then have "tx_id r = TxId i" "idx r = Index i" by (auto simp: row_id_def)
    moreover from this i have "HasTokens inputs r" by (force simp: HasTokens_def)
    ultimately show ?thesis using True by simp
  next
    case False
    then have "\<not> (tx_id r = TxId i \<and> idx r = Index i)" by (cases i) (auto simp: row_id_def)
    with False show ?thesis by blast
  qed
  then show ?thesis unfolding Query_def find_filter owned_row_def by simp
qed

lemma first_nil_None: "first_nil tokens k = None \<longleftrightarrow> None \<notin> set tokens"
  by (induction tokens arbitrary: k) auto

lemma first_nil_Some: "first_nil tokens k = Some j \<Longrightarrow> k \<le> j \<and> j - k < length tokens"
proof (induction tokens arbitrary: k)
  case Nil
  then show ?case by simp
next
  case (Cons t tokens)
  then show ?case by (cases "t = None") (auto dest!: Cons.IH)
qed

text \<open>On distinct ids, under the primary key and when the driver reports no error:
  \<^verbatim>\<open>GetTokens\<close> returns the tokens of the ids, in the order of the ids, when every id
  has an owned and not deleted row; else it returns no slice and "token not found" for
  the first id that has none.\<close>

lemma GetTokens_distinct_ids:
  assumes "primary_key (Tokens d)" and "distinct inputs" and "inputs \<noteq> []"
    and "Query_fails d = None" and "Next_fails d = None" and "\<forall>n. Scan_fails d n = None"
  shows "GetTokens d inputs =
           (case first_nil (expected_tokens (Tokens d) inputs) 0 of
              None \<Rightarrow> (Some (expected_tokens (Tokens d) inputs), None)
            | Some j \<Rightarrow> (None, Some (not_found (inputs ! j))))"
proof -
  define table where "table = Tokens d"
  let ?rows = "Query table inputs"
  note pk = assms(1) [folded table_def]
  have keys: "map row_id ?rows = map (\<lambda>(a, b). \<lparr>TxId = a, Index = b\<rparr>) (map (\<lambda>r. (tx_id r, idx r)) ?rows)"
    by (simp add: row_id_def)
  have "distinct (map (\<lambda>r. (tx_id r, idx r)) ?rows)"
    using pk unfolding primary_key_def Query_def by (rule distinct_map_filter)
  then have d: "distinct (map row_id ?rows)"
    unfolding keys by (subst distinct_map) (auto simp: inj_on_def)
  have sub: "set (map row_id ?rows) \<subseteq> set inputs"
  proof
    fix x assume "x \<in> set (map row_id ?rows)"
    then obtain r where "r \<in> set ?rows" "x = row_id r" by auto
    then obtain i where "i \<in> set inputs" "TxId i = tx_id r" "Index i = idx r"
      by (auto simp: Query_def HasTokens_def)
    with \<open>x = row_id r\<close> show "x \<in> set inputs" by (cases i) (simp add: row_id_def)
  qed
  have scan: "scan_rows (Scan_fails d) inputs ?rows 0 (replicate (length inputs) None) 0 =
      Inr (expected_tokens table inputs, length ?rows)"
  proof -
    have "map (\<lambda>(i, t). case find (\<lambda>r. row_id r = i) ?rows of
                                 Some r \<Rightarrow> Some (row_token r) | None \<Rightarrow> t)
            (zip inputs (replicate (length inputs) None))
          = expected_tokens table inputs"
      unfolding expected_tokens_def
    proof (rule nth_equalityI)
      show "length (map (\<lambda>(i, t). case find (\<lambda>r. row_id r = i) ?rows of
                                 Some r \<Rightarrow> Some (row_token r) | None \<Rightarrow> t)
            (zip inputs (replicate (length inputs) None)))
            = length (map (\<lambda>i. map_option row_token (owned_row table i)) inputs)"
        by simp
    next
      fix n assume "n < length (map (\<lambda>(i, t). case find (\<lambda>r. row_id r = i) ?rows of
                                 Some r \<Rightarrow> Some (row_token r) | None \<Rightarrow> t)
            (zip inputs (replicate (length inputs) None)))"
      then have n: "n < length inputs" by simp
      then have "find (\<lambda>r. row_id r = inputs ! n) ?rows = owned_row table (inputs ! n)"
        by (intro find_Query) simp
      with n show "map (\<lambda>(i, t). case find (\<lambda>r. row_id r = i) ?rows of
                                 Some r \<Rightarrow> Some (row_token r) | None \<Rightarrow> t)
            (zip inputs (replicate (length inputs) None)) ! n
            = map (\<lambda>i. map_option row_token (owned_row table i)) inputs ! n"
        by (simp split: option.splits)
    qed
    with scan_rows_distinct [OF assms(2) d sub, of "replicate (length inputs) None" 0
        "Scan_fails d" 0] assms(6)
    show ?thesis by simp
  qed
  have len: "length ?rows = card (set (map row_id ?rows))"
    using distinct_card [OF d] by simp
  have cardle: "card (set (map row_id ?rows)) \<le> length inputs"
    using card_mono [OF _ sub] distinct_card [OF assms(2)] by simp
  have full: "None \<notin> set (expected_tokens table inputs) \<longleftrightarrow> length ?rows = length inputs"
  proof
    assume a: "None \<notin> set (expected_tokens table inputs)"
    have "set inputs \<subseteq> set (map row_id ?rows)"
    proof
      fix i assume i: "i \<in> set inputs"
      with a have "owned_row table i \<noteq> None"
        by (auto simp: expected_tokens_def image_iff)
      with find_Query [OF i, of table] obtain r where
        "find (\<lambda>r. row_id r = i) ?rows = Some r" by auto
      then have "r \<in> set ?rows" "row_id r = i"
        by (auto simp: find_Some_iff)
      then show "i \<in> set (map row_id ?rows)" by auto
    qed
    with sub have "set (map row_id ?rows) = set inputs" by blast
    with len distinct_card [OF assms(2)] show "length ?rows = length inputs" by simp
  next
    assume a: "length ?rows = length inputs"
    with len distinct_card [OF assms(2)] have "card (set (map row_id ?rows)) = card (set inputs)"
      by simp
    with sub have eq: "set (map row_id ?rows) = set inputs"
      by (intro card_subset_eq) simp_all
    show "None \<notin> set (expected_tokens table inputs)"
    proof
      assume "None \<in> set (expected_tokens table inputs)"
      then obtain i where i: "i \<in> set inputs" "owned_row table i = None"
        by (auto simp: expected_tokens_def)
      with find_Query [OF i(1), of table] have "find (\<lambda>r. row_id r = i) ?rows = None" by simp
      then have "i \<notin> set (map row_id ?rows)" by (auto simp: find_None_iff)
      with eq i(1) show False by simp
    qed
  qed
  from assms(3) have ne: "length inputs \<noteq> 0" by simp
  have "GetTokens d inputs =
           (case first_nil (expected_tokens table inputs) 0 of
              None \<Rightarrow> (Some (expected_tokens table inputs), None)
            | Some j \<Rightarrow> (None, Some (not_found (inputs ! j))))" (is ?goal)
  proof (cases "length ?rows = 0")
    case True
    then have empty: "?rows = []" by simp
    have "owned_row table i = None" if "i \<in> set inputs" for i
      using find_Query [OF that, of table] by (simp add: empty)
    then have "expected_tokens table inputs = map (\<lambda>i. None) inputs"
      unfolding expected_tokens_def by (intro map_cong refl) simp
    then have "first_nil (expected_tokens table inputs) 0 = Some 0"
      using assms(3) by (cases inputs) simp_all
    with True ne scan show ?goal by (simp add: GetTokens_def table_def [symmetric] assms(4) delivered_all [OF assms(5)])
  next
    case False
    show ?goal
    proof (cases "length ?rows = length inputs")
      case True
      with full have "first_nil (expected_tokens table inputs) 0 = None"
        by (simp add: first_nil_None)
      with True False ne scan show ?goal by (simp add: GetTokens_def table_def [symmetric] assms(4) delivered_all [OF assms(5)])
    next
      case neq: False
      with full have "first_nil (expected_tokens table inputs) 0 \<noteq> None"
        by (simp add: first_nil_None)
      then obtain j where "first_nil (expected_tokens table inputs) 0 = Some j" by auto
      with neq False ne scan show ?goal by (simp add: GetTokens_def table_def [symmetric] assms(4) delivered_all [OF assms(5)])
    qed
  qed
  then show ?thesis unfolding table_def .
qed

section \<open>Properties of the transaction store\<close>

subsection \<open>\<^verbatim>\<open>SetStatus\<close>\<close>

text \<open>
  C5. If the backend's status update returns an error, \<^verbatim>\<open>SetStatus\<close> returns that error
  (wrapped with a message) and no listener is delivered anything: the only call made is
  the backend's. If the backend succeeds, \<^verbatim>\<open>SetStatus\<close> returns nil, the backend call is
  followed by exactly one \<^verbatim>\<open>Notify\<close>, of the event carrying the context, \<open>txID\<close> and
  the status, and every registered listener is delivered that one event.
\<close>

theorem SetStatus_notifies_on_success_only:
  "(db_SetStatus B (db d) ctx txID status message = (Some err, b) \<longrightarrow>
      (\<exists>e d'. SetStatus M B d ctx txID status message = (Some e, d')
         \<and> Cause e = Cause err
         \<and> listeners d' = listeners d
         \<and> calls d' = calls d @ [BackendSetStatus txID status message]))
   \<and> (db_SetStatus B (db d) ctx txID status message = (None, b) \<longrightarrow>
      (\<exists>d'. SetStatus M B d ctx txID status message = (None, d')
         \<and> db d' = b
         \<and> listeners d' =
             map (\<lambda>delivered. delivered @ [\<lparr>Ctx = ctx, TxID = txID, ValidationCode = status\<rparr>])
               (listeners d)
         \<and> calls d' = calls d @ [BackendSetStatus txID status message,
              NotifyCall \<lparr>Ctx = ctx, TxID = txID, ValidationCode = status\<rparr>]))"
  by (simp add: SetStatus_def Notify_def Let_def)

theorem SetStatus_notifies_on_success_only_witness:
  "db_SetStatus mem_backend (db store_T1) 0 ''T9'' Confirmed '''' 
     = (Some (Errorf ''no transaction with that id''), db store_T1)
   \<and> (\<exists>e d'. SetStatus status_names mem_backend store_T1 0 ''T9'' Confirmed '''' = (Some e, d')
         \<and> Cause e = Cause (Errorf ''no transaction with that id'')
         \<and> listeners d' = listeners store_T1
         \<and> calls d' = calls store_T1 @ [BackendSetStatus ''T9'' Confirmed ''''])
   \<and> db_SetStatus mem_backend (db store_T1) 0 ''T1'' Confirmed '''' = (None, db store_T1)
   \<and> (\<exists>d'. SetStatus status_names mem_backend store_T1 0 ''T1'' Confirmed '''' = (None, d')
         \<and> db d' = db store_T1
         \<and> listeners d' =
             map (\<lambda>delivered. delivered @ [\<lparr>Ctx = 0, TxID = ''T1'', ValidationCode = Confirmed\<rparr>])
               (listeners store_T1)
         \<and> calls d' = calls store_T1 @ [BackendSetStatus ''T1'' Confirmed '''',
              NotifyCall \<lparr>Ctx = 0, TxID = ''T1'', ValidationCode = Confirmed\<rparr>])"
proof -
  have a: "db_SetStatus mem_backend (db store_T1) 0 ''T9'' Confirmed '''' 
     = (Some (Errorf ''no transaction with that id''), db store_T1)"
    by (simp add: mem_backend_def store_T1_def)
  have b: "db_SetStatus mem_backend (db store_T1) 0 ''T1'' Confirmed '''' = (None, db store_T1)"
    by (simp add: mem_backend_def store_T1_def)
  from a b
    SetStatus_notifies_on_success_only [of mem_backend store_T1 0 "''T9''" Confirmed "''''"
      "Errorf ''no transaction with that id''" "db store_T1" status_names]
    SetStatus_notifies_on_success_only [of mem_backend store_T1 0 "''T1''" Confirmed "''''"
      "Errorf ''no transaction with that id''" "db store_T1" status_names]
  show ?thesis by blast
qed

subsection \<open>The request cache\<close>

lemma AddTransactions_keeps_cache:
  "cache (snd (AddTransactions B anchor d txs)) = cache d
   \<and> (\<exists>rest. calls (snd (AddTransactions B anchor d txs)) = calls d @ rest)"
proof (induction txs arbitrary: d)
  case Nil
  then show ?case by simp
next
  case (Cons tx txs)
  show ?case
  proof (cases "w_AddTransaction B (db d) tx")
    case (Pair r b)
    show ?thesis
    proof (cases r)
      case None
      with Pair Cons [of "d\<lparr>db := b, calls := calls d @ [AddTransaction tx]\<rparr>"]
      show ?thesis by auto
    next
      case (Some err)
      with Pair show ?thesis by simp
    qed
  qed
qed

text \<open>Once the atomic write has begun, \<^verbatim>\<open>AppendTransactionRecord\<close> adds the request to
  the cache before it calls the write handle, and nothing touches the cache afterwards,
  whether the write is committed, rolled back or fails to commit.\<close>

lemma AppendTransactionRecord_cache:
  assumes "InputsAndOutputs req = Inr (ins, outs)" and "Bytes req = Inr raw"
    and "TransactionRecords \<lparr>AuditRecord.Anchor = Request.Anchor req, Inputs = ins, Outputs = outs\<rparr> now
           = Inr txs"
    and "fst (db_BeginAtomicWrite B (db d)) = None"
  shows "cache (snd (AppendTransactionRecord B C now d req))
           = cache_Add C (cache d) (Request.Anchor req) raw
         \<and> (\<exists>rest. calls (snd (AppendTransactionRecord B C now d req))
              = calls d @ [BeginAtomicWrite, CacheAdd (Request.Anchor req) raw,
                           AddTokenRequest (Request.Anchor req) raw] @ rest)"
proof -
  obtain b where b: "db_BeginAtomicWrite B (db d) = (None, b)"
    using assms(4) by (cases "db_BeginAtomicWrite B (db d)") simp
  define d1 where "d1 = d\<lparr>db := b,
      cache := cache_Add C (cache d) (Request.Anchor req) raw,
      calls := calls d @ [BeginAtomicWrite, CacheAdd (Request.Anchor req) raw]\<rparr>"
  obtain r2 b2 where w: "w_AddTokenRequest B b (Request.Anchor req) raw
      (Application req) (PublicParamsHash req) = (r2, b2)"
    by (cases "w_AddTokenRequest B b (Request.Anchor req) raw (Application req) (PublicParamsHash req)")
  show ?thesis
  proof (cases r2)
    case (Some err)
    with assms(1-3) b w show ?thesis
      by (simp add: AppendTransactionRecord_def Let_def)
  next
    case None
    define d2 where "d2 = d1\<lparr>db := b2,
      calls := calls d1 @ [AddTokenRequest (Request.Anchor req) raw]\<rparr>"
    obtain r3 d3 where a: "AddTransactions B (Request.Anchor req) d2 txs = (r3, d3)"
      by (cases "AddTransactions B (Request.Anchor req) d2 txs")
    from AddTransactions_keeps_cache [of B "Request.Anchor req" d2 txs] a
    obtain rest where d3: "cache d3 = cache d2" "calls d3 = calls d2 @ rest" by auto
    obtain r4 b4 where c: "w_Commit B (db d3) = (r4, b4)" by (cases "w_Commit B (db d3)")
    have unfold: "AppendTransactionRecord B C now d req =
      (case r3 of Some err \<Rightarrow> (Some err, d3)
       | None \<Rightarrow> (case r4 of
           Some err \<Rightarrow> (Some (Wrapf err (''committing tx for txid ['' @ Request.Anchor req
                            @ ''] failed'')), d3\<lparr>db := b4, calls := calls d3 @ [Commit]\<rparr>)
         | None \<Rightarrow> (None, d3\<lparr>db := b4, calls := calls d3 @ [Commit]\<rparr>)))"
      using assms(1-3) b w None a c
      by (simp add: AppendTransactionRecord_def Let_def d1_def d2_def split: option.splits)
    show ?thesis
      unfolding unfold using d3 by (auto simp: d1_def d2_def split: option.splits)
  qed
qed

lemma AppendValidationRecord_cache:
  assumes "fst (db_BeginAtomicWrite B (db d)) = None"
  shows "cache (snd (AppendValidationRecord B C d txID tokenRequest meta ppHash))
           = cache_Add C (cache d) txID tokenRequest
         \<and> (\<exists>rest. calls (snd (AppendValidationRecord B C d txID tokenRequest meta ppHash))
              = calls d @ [BeginAtomicWrite, CacheAdd txID tokenRequest,
                           AddTokenRequest txID tokenRequest] @ rest)"
proof -
  obtain b where b: "db_BeginAtomicWrite B (db d) = (None, b)"
    using assms by (cases "db_BeginAtomicWrite B (db d)") simp
  then show ?thesis
    by (auto simp: AppendValidationRecord_def Let_def split: prod.splits option.splits)
qed

lemma GetTokenRequest_hit:
  "fst (cache_Get C (cache d) txID) = Some res \<Longrightarrow> fst (GetTokenRequest B C d txID) = Inr res"
  by (cases "cache_Get C (cache d) txID") (simp add: GetTokenRequest_def)

text \<open>
  C6, as amended. \<^verbatim>\<open>GetTokenRequest\<close> consults the cache first. On a hit it returns the
  cached bytes and the backend is not queried. On a miss it returns the backend's answer
  and adds nothing to the cache: its only calls are the cache lookup and the backend
  query. The cache is populated by \<^verbatim>\<open>AppendTransactionRecord\<close> and
  \<^verbatim>\<open>AppendValidationRecord\<close>, which add the request themselves once the atomic write has
  begun, before they call \<^verbatim>\<open>AddTokenRequest\<close> on the write handle.
\<close>

theorem GetTokenRequest_cache_first:
  "(cache_Get C (cache d) txID = (Some res, c) \<longrightarrow>
      GetTokenRequest B C d txID = (Inr res, d\<lparr>cache := c, calls := calls d @ [CacheGet txID]\<rparr>))
   \<and> (cache_Get C (cache d) txID = (None, c) \<longrightarrow>
      GetTokenRequest B C d txID =
        (db_GetTokenRequest B (db d) txID,
         d\<lparr>cache := c, calls := calls d @ [CacheGet txID, BackendGetTokenRequest txID]\<rparr>))
   \<and> (fst (db_BeginAtomicWrite B (db d)) = None \<longrightarrow>
      cache (snd (AppendValidationRecord B C d txID tokenRequest meta ppHash))
        = cache_Add C (cache d) txID tokenRequest
      \<and> (\<exists>rest. calls (snd (AppendValidationRecord B C d txID tokenRequest meta ppHash))
            = calls d @ [BeginAtomicWrite, CacheAdd txID tokenRequest,
                         AddTokenRequest txID tokenRequest] @ rest))
   \<and> (InputsAndOutputs req = Inr (ins, outs) \<and> Bytes req = Inr raw
       \<and> TransactionRecords \<lparr>AuditRecord.Anchor = Request.Anchor req, Inputs = ins, Outputs = outs\<rparr> now
           = Inr txs
       \<and> fst (db_BeginAtomicWrite B (db d)) = None \<longrightarrow>
      cache (snd (AppendTransactionRecord B C now d req))
        = cache_Add C (cache d) (Request.Anchor req) raw
      \<and> (\<exists>rest. calls (snd (AppendTransactionRecord B C now d req))
            = calls d @ [BeginAtomicWrite, CacheAdd (Request.Anchor req) raw,
                         AddTokenRequest (Request.Anchor req) raw] @ rest))"
  using AppendValidationRecord_cache [of B d C txID tokenRequest meta ppHash]
    AppendTransactionRecord_cache [of req ins outs raw now txs B d C]
  by (simp add: GetTokenRequest_def)

text \<open>
  C9. Once the atomic write has begun, a call of \<^verbatim>\<open>AppendTransactionRecord\<close> (likewise of
  \<^verbatim>\<open>AppendValidationRecord\<close>) that returns an error has still added the request to the
  cache, before any call on the write handle: on a cache that returns what was just
  added, \<^verbatim>\<open>GetTokenRequest\<close> on that anchor then returns those bytes, whatever the
  backend holds.
\<close>

theorem failed_append_leaves_request_cached:
  assumes "\<forall>c k v. fst (cache_Get C (cache_Add C c k v) k) = Some v"
  shows "(InputsAndOutputs req = Inr (ins, outs) \<and> Bytes req = Inr raw
          \<and> TransactionRecords \<lparr>AuditRecord.Anchor = Request.Anchor req, Inputs = ins, Outputs = outs\<rparr> now
              = Inr txs
          \<and> fst (db_BeginAtomicWrite B (db d)) = None
          \<and> AppendTransactionRecord B C now d req = (Some err, d') \<longrightarrow>
            fst (GetTokenRequest B C d' (Request.Anchor req)) = Inr raw
            \<and> (\<exists>rest. calls d' = calls d @ [BeginAtomicWrite, CacheAdd (Request.Anchor req) raw,
                                             AddTokenRequest (Request.Anchor req) raw] @ rest))
         \<and> (fst (db_BeginAtomicWrite B (db d)) = None
            \<and> AppendValidationRecord B C d txID tokenRequest meta ppHash = (Some err, d') \<longrightarrow>
            fst (GetTokenRequest B C d' txID) = Inr tokenRequest
            \<and> (\<exists>rest. calls d' = calls d @ [BeginAtomicWrite, CacheAdd txID tokenRequest,
                                             AddTokenRequest txID tokenRequest] @ rest))"
proof (intro conjI impI)
  assume a: "InputsAndOutputs req = Inr (ins, outs) \<and> Bytes req = Inr raw
          \<and> TransactionRecords \<lparr>AuditRecord.Anchor = Request.Anchor req, Inputs = ins, Outputs = outs\<rparr> now
              = Inr txs
          \<and> fst (db_BeginAtomicWrite B (db d)) = None
          \<and> AppendTransactionRecord B C now d req = (Some err, d')"
  with AppendTransactionRecord_cache [of req ins outs raw now txs B d C]
  have c: "cache d' = cache_Add C (cache d) (Request.Anchor req) raw"
    and r: "\<exists>rest. calls d' = calls d @ [BeginAtomicWrite, CacheAdd (Request.Anchor req) raw,
                                             AddTokenRequest (Request.Anchor req) raw] @ rest"
    by simp_all
  from assms c show "fst (GetTokenRequest B C d' (Request.Anchor req)) = Inr raw"
    by (intro GetTokenRequest_hit) simp
  from r show "\<exists>rest. calls d' = calls d @ [BeginAtomicWrite, CacheAdd (Request.Anchor req) raw,
                                             AddTokenRequest (Request.Anchor req) raw] @ rest" .
next
  assume a: "fst (db_BeginAtomicWrite B (db d)) = None
            \<and> AppendValidationRecord B C d txID tokenRequest meta ppHash = (Some err, d')"
  with AppendValidationRecord_cache [of B d C txID tokenRequest meta ppHash]
  have c: "cache d' = cache_Add C (cache d) txID tokenRequest"
    and r: "\<exists>rest. calls d' = calls d @ [BeginAtomicWrite, CacheAdd txID tokenRequest,
                                             AddTokenRequest txID tokenRequest] @ rest"
    by simp_all
  from assms c show "fst (GetTokenRequest B C d' txID) = Inr tokenRequest"
    by (intro GetTokenRequest_hit) simp
  from r show "\<exists>rest. calls d' = calls d @ [BeginAtomicWrite, CacheAdd txID tokenRequest,
                                             AddTokenRequest txID tokenRequest] @ rest" .
qed

subsection \<open>The request cache on the samples\<close>

lemma request_T7_records:
  "\<exists>txs. TransactionRecords
      \<lparr>AuditRecord.Anchor = Request.Anchor request_T7, Inputs = Inputs transfer_example,
        Outputs = Outputs transfer_example\<rparr> 7 = Inr txs"
proof -
  have "TransactionRecords
      \<lparr>AuditRecord.Anchor = Request.Anchor request_T7, Inputs = Inputs transfer_example,
        Outputs = Outputs transfer_example\<rparr> 7
     = Inr [bob_record\<lparr>TransactionRecord.TxID := ''T7''\<rparr>,
            alice_record\<lparr>TransactionRecord.TxID := ''T7''\<rparr>]"
    by code_simp
  then show ?thesis by blast
qed

theorem GetTokenRequest_cache_first_witness:
  "cache_Get mem_cache (cache store_cached) ''T1'' = (Some ''request-1'', cache store_cached)
   \<and> GetTokenRequest mem_backend mem_cache store_cached ''T1''
       = (Inr ''request-1'', store_cached\<lparr>calls := [CacheGet ''T1'']\<rparr>)
   \<and> cache_Get mem_cache (cache store_T1) ''T1'' = (None, cache store_T1)
   \<and> GetTokenRequest mem_backend mem_cache store_T1 ''T1''
       = (Inr ''request-1'', store_T1\<lparr>calls := [CacheGet ''T1'', BackendGetTokenRequest ''T1'']\<rparr>)
   \<and> fst (db_BeginAtomicWrite mem_backend (db store_T1)) = None
   \<and> cache (snd (AppendValidationRecord mem_backend mem_cache store_T1 ''T8'' ''request-8'' [] ''pp''))
       = [(''T8'', ''request-8'')]
   \<and> cache (snd (AppendTransactionRecord mem_backend mem_cache 7 store_T1 request_T7))
       = [(''T7'', ''request-7'')]"
proof -
  have hit: "cache_Get mem_cache (cache store_cached) ''T1'' = (Some ''request-1'', cache store_cached)"
    by (simp add: mem_cache_def store_cached_def store_T1_def)
  have miss: "cache_Get mem_cache (cache store_T1) ''T1'' = (None, cache store_T1)"
    by (simp add: mem_cache_def store_T1_def)
  have bg: "fst (db_BeginAtomicWrite mem_backend (db store_T1)) = None"
    by (simp add: mem_backend_def)
  have req: "InputsAndOutputs request_T7 = Inr (Inputs transfer_example, Outputs transfer_example)"
    "Bytes request_T7 = Inr ''request-7''" "Request.Anchor request_T7 = ''T7''"
    by (simp_all add: request_T7_def)
  obtain txs where txs: "TransactionRecords
      \<lparr>AuditRecord.Anchor = Request.Anchor request_T7, Inputs = Inputs transfer_example,
        Outputs = Outputs transfer_example\<rparr> 7 = Inr txs"
    using request_T7_records by blast
  have backend: "db_GetTokenRequest mem_backend (db store_T1) ''T1'' = Inr ''request-1''"
    by (simp add: mem_backend_def store_T1_def)
  have add: "cache_Add mem_cache (cache store_T1) k v = [(k, v)]" for k v
    by (simp add: mem_cache_def store_T1_def)
  from hit GetTokenRequest_cache_first [where B = mem_backend and C = mem_cache
      and d = store_cached and txID = "''T1''" and res = "''request-1''" and c = "cache store_cached"]
  have h1: "GetTokenRequest mem_backend mem_cache store_cached ''T1''
       = (Inr ''request-1'', store_cached\<lparr>calls := [CacheGet ''T1'']\<rparr>)"
    by (simp add: store_cached_def store_T1_def)
  from miss bg req txs GetTokenRequest_cache_first [where B = mem_backend and C = mem_cache
      and d = store_T1 and txID = "''T1''" and c = "cache store_T1"
      and tokenRequest = "''request-8''" and meta = "[]" and ppHash = "''pp''"
      and req = request_T7 and ins = "Inputs transfer_example" and outs = "Outputs transfer_example"
      and raw = "''request-7''" and now = 7 and txs = txs]
  have h2: "GetTokenRequest mem_backend mem_cache store_T1 ''T1''
        = (db_GetTokenRequest mem_backend (db store_T1) ''T1'',
           store_T1\<lparr>cache := cache store_T1, calls := calls store_T1 @ [CacheGet ''T1'', BackendGetTokenRequest ''T1'']\<rparr>)"
    and h4: "cache (snd (AppendTransactionRecord mem_backend mem_cache 7 store_T1 request_T7))
        = cache_Add mem_cache (cache store_T1) ''T7'' ''request-7''"
    by simp_all
  from miss bg GetTokenRequest_cache_first [where B = mem_backend and C = mem_cache
      and d = store_T1 and txID = "''T8''" and c = "cache store_T1"
      and tokenRequest = "''request-8''" and meta = "[]" and ppHash = "''pp''"]
  have h3: "cache (snd (AppendValidationRecord mem_backend mem_cache store_T1 ''T8'' ''request-8'' [] ''pp''))
       = cache_Add mem_cache (cache store_T1) ''T8'' ''request-8''"
    by simp
  from h2 backend have h2b: "GetTokenRequest mem_backend mem_cache store_T1 ''T1''
       = (Inr ''request-1'', store_T1\<lparr>calls := [CacheGet ''T1'', BackendGetTokenRequest ''T1'']\<rparr>)"
    by (simp add: store_T1_def)
  from hit miss bg h1 h2b h3 h4 add show ?thesis by simp
qed

theorem GetTokenRequest_cache_first_counterexample:
  "cache_Get mem_cache (cache store_T1) ''T1'' = (None, cache store_T1)
   \<and> fst (GetTokenRequest mem_backend mem_cache store_T1 ''T1'') = Inr ''request-1''
   \<and> cache (snd (GetTokenRequest mem_backend mem_cache store_T1 ''T1'')) = []
   \<and> calls (snd (GetTokenRequest mem_backend mem_cache store_T1 ''T1''))
       = [CacheGet ''T1'', BackendGetTokenRequest ''T1'']"
  by (simp add: GetTokenRequest_def mem_cache_def mem_backend_def store_T1_def)

theorem failed_append_leaves_request_cached_witness:
  "fst (db_BeginAtomicWrite mem_backend (db store_failing)) = None
   \<and> fst (AppendTransactionRecord mem_backend mem_cache 7 store_failing request_T7)
       = Some (Wrapf (Errorf ''commit failed'') ''committing tx for txid [T7] failed'')
   \<and> db_GetTokenRequest mem_backend
        (db (snd (AppendTransactionRecord mem_backend mem_cache 7 store_failing request_T7))) ''T7''
       = Inl (Errorf ''no token request with that id'')
   \<and> fst (GetTokenRequest mem_backend mem_cache store_failing ''T7'')
       = Inl (Errorf ''no token request with that id'')
   \<and> fst (GetTokenRequest mem_backend mem_cache
        (snd (AppendTransactionRecord mem_backend mem_cache 7 store_failing request_T7)) ''T7'')
       = Inr ''request-7''
   \<and> fst (AppendValidationRecord mem_backend mem_cache store_failing ''T8'' ''request-8'' [] ''pp'')
       = Some (Wrapf (Errorf ''commit failed'')
                 ''append validation record commit for txid [T8] failed'')
   \<and> fst (GetTokenRequest mem_backend mem_cache
        (snd (AppendValidationRecord mem_backend mem_cache store_failing ''T8'' ''request-8'' [] ''pp''))
        ''T8'')
       = Inr ''request-8''"
proof -
  let ?t = "AppendTransactionRecord mem_backend mem_cache 7 store_failing request_T7"
  let ?v = "AppendValidationRecord mem_backend mem_cache store_failing ''T8'' ''request-8'' [] ''pp''"
  have law: "\<forall>c k v. fst (cache_Get mem_cache (cache_Add mem_cache c k v) k) = Some v"
    by (simp add: mem_cache_def)
  have bg: "fst (db_BeginAtomicWrite mem_backend (db store_failing)) = None"
    by (simp add: mem_backend_def)
  have req: "InputsAndOutputs request_T7 = Inr (Inputs transfer_example, Outputs transfer_example)"
    "Bytes request_T7 = Inr ''request-7''" "Request.Anchor request_T7 = ''T7''"
    by (simp_all add: request_T7_def)
  obtain txs where txs: "TransactionRecords
      \<lparr>AuditRecord.Anchor = Request.Anchor request_T7, Inputs = Inputs transfer_example,
        Outputs = Outputs transfer_example\<rparr> 7 = Inr txs"
    using request_T7_records by blast
  have ft: "fst ?t = Some (Wrapf (Errorf ''commit failed'') ''committing tx for txid [T7] failed'')"
    by code_simp
  have fv: "fst ?v = Some (Wrapf (Errorf ''commit failed'')
                 ''append validation record commit for txid [T8] failed'')"
    by code_simp
  have bt: "db_GetTokenRequest mem_backend (db (snd ?t)) ''T7''
       = Inl (Errorf ''no token request with that id'')"
    by code_simp
  have before: "fst (GetTokenRequest mem_backend mem_cache store_failing ''T7'')
       = Inl (Errorf ''no token request with that id'')"
    by code_simp
  from ft have et: "?t = (Some (Wrapf (Errorf ''commit failed'')
      ''committing tx for txid [T7] failed''), snd ?t)"
    by (simp add: prod_eq_iff)
  from fv have ev: "?v = (Some (Wrapf (Errorf ''commit failed'')
      ''append validation record commit for txid [T8] failed''), snd ?v)"
    by (simp add: prod_eq_iff)
  from bg req txs et
    failed_append_leaves_request_cached [OF law, where B = mem_backend and d = store_failing
      and req = request_T7 and ins = "Inputs transfer_example" and outs = "Outputs transfer_example"
      and raw = "''request-7''" and now = 7 and txs = txs and d' = "snd ?t"
      and err = "Wrapf (Errorf ''commit failed'') ''committing tx for txid [T7] failed''"]
  have h1: "fst (GetTokenRequest mem_backend mem_cache (snd ?t) ''T7'') = Inr ''request-7''"
    by simp
  from bg ev
    failed_append_leaves_request_cached [OF law, where B = mem_backend and d = store_failing
      and txID = "''T8''" and tokenRequest = "''request-8''" and meta = "[]" and ppHash = "''pp''"
      and d' = "snd ?v"
      and err = "Wrapf (Errorf ''commit failed'')
                   ''append validation record commit for txid [T8] failed''"]
  have h2: "fst (GetTokenRequest mem_backend mem_cache (snd ?v) ''T8'') = Inr ''request-8''"
    by simp
  from bg ft bt before h1 fv h2 show ?thesis by simp
qed

section \<open>Properties of the status cross-check\<close>

text \<open>
  C7, as amended. For a transaction record whose vault status is valid while the store
  holds it as pending, the cross-check appends exactly one message to the output list,
  "transaction record [tx-id] is valid for vault but pending for the db", and goes on to
  the ledger check; it is given the record and the vault's answer only, and returns the
  messages.
\<close>

theorem vault_status_check_valid_pending:
  assumes "vault (TransactionRecord.TxID r) = Inr Valid"
    and "TransactionRecord.Status r = Pending"
  shows "vault_status_check M vault r errorMessages =
           (errorMessages @ [''transaction record ['' @ TransactionRecord.TxID r
              @ ''] is valid for vault but pending for the db''], True)"
  using assms by (simp add: vault_status_check_def)

theorem vault_status_check_valid_pending_witness:
  "TransactionRecord.Status pending_record = Pending
   \<and> vault_status_check status_names (\<lambda>txID. Inr Valid) pending_record [] =
       ([''transaction record [T1] is valid for vault but pending for the db''], True)"
proof -
  have s: "TransactionRecord.Status pending_record = Pending"
    and t: "TransactionRecord.TxID pending_record = ''T1''"
    by (simp_all add: pending_record_def)
  from vault_status_check_valid_pending [of "\<lambda>txID. Inr Valid" pending_record status_names "[]", OF refl s]
  show ?thesis using s t by simp
qed

theorem vault_status_check_valid_pending_counterexample:
  "vault_status_check status_names (\<lambda>txID. Inr Valid) pending_record [] =
     ([''transaction record [T1] is valid for vault but pending for the db''], True)
   \<and> ''transaction record [T1] is valid for vault but pending for the db''
       \<noteq> ''valid for vault but pending for db''
   \<and> \<not> sublist ''valid for vault but pending for db''
         ''transaction record [T1] is valid for vault but pending for the db''"
  by code_simp

end
